theory Spec2Isabelle
  imports Main "HOL-Library.Word" "HOL-Library.AList" "HOL-Library.Multiset"
begin

unbundle bit_operations_syntax

section \<open>The epoll backend of package netpoll (netpoll/epoll.go)\<close>

text \<open>
  The instance is shared by the goroutines that call \<open>Add\<close>, \<open>Del\<close>, \<open>Mod\<close> and
  \<open>Close\<close> and by the one goroutine that runs \<open>wait\<close>. Each function below is the
  execution of one call by one goroutine: it takes the shared instance as it is when the
  call takes the lock, the results of the operating system calls it makes (the answers of
  the kernel are inputs), and returns what the call returns, the instance as the call
  leaves it, and the list of the effects of the call in program order: operations on the
  mutex \<open>ep.mu\<close>, system calls with their arguments, invocations of callbacks and of the
  error handler, and operations on the channel \<open>ep.waitDone\<close>.
\<close>

subsection \<open>Values\<close>

text \<open>\<open>unix.Errno\<close>: the number of an operating system error.\<close>

type_synonym errno = nat

text \<open>\<open>type EpollEvent uint32\<close>\<close>

type_synonym EpollEvent = "32 word"

text \<open>
  A Go function value \<open>func(EpollEvent)\<close> is opaque: it is identified by a number, and
  the \<open>nil\<close> function is \<open>None\<close> of \<open>callback option\<close>.
\<close>

type_synonym callback = nat

text \<open>
  The package's error values, and an error of the operating system. Go's \<open>error\<close> is
  \<open>error option\<close>, with \<open>None\<close> for \<open>nil\<close>.
\<close>

datatype error = ErrNotFiler | ErrClosed | ErrRegistered | ErrNotRegistered | Errno errno

text \<open>\<open>unix.EPOLLIN\<close>, the one event bit the file itself registers.\<close>

definition EPOLLIN :: EpollEvent where
  "EPOLLIN = 0x1"

text \<open>
  \<open>_EPOLLCLOSED = 0x20\<close>, the value whose receipt means that the epoll instance is
  closed (an Isabelle name cannot start with an underscore).
\<close>

definition EPOLLCLOSED :: EpollEvent where
  "EPOLLCLOSED = 0x20"

datatype ctl_op = EPOLL_CTL_ADD | EPOLL_CTL_DEL | EPOLL_CTL_MOD

text \<open>\<open>unix.EpollEvent\<close>: the event mask and the handle as \<open>int32\<close>.\<close>

record unix_EpollEvent =
  Events :: "32 word"
  Fd :: "32 word"

text \<open>The function given as \<open>OnWaitError\<close>: the package's default or one of the caller's.\<close>

datatype handler = defaultOnWaitError | UserHandler nat

record EpollConfig =
  OnWaitError :: "handler option"

definition withDefaults :: "EpollConfig option \<Rightarrow> EpollConfig" where
  "withDefaults c =
     (let config = (case c of Some c' \<Rightarrow> c' | None \<Rightarrow> \<lparr>OnWaitError = None\<rparr>)
      in if OnWaitError config = None
         then config\<lparr>OnWaitError := Some defaultOnWaitError\<rparr>
         else config)"

text \<open>\<open>var closeBytes = []byte{1, 0, 0, 0, 0, 0, 0, 0}\<close>\<close>

definition closeBytes :: "8 word list" where
  "closeBytes = [1, 0, 0, 0, 0, 0, 0, 0]"

definition maxWaitEventsBegin :: nat where
  "maxWaitEventsBegin = 1024"

definition maxWaitEventsStop :: nat where
  "maxWaitEventsStop = 32768"

subsection \<open>Effects\<close>

text \<open>
  What a call does besides returning. A system call is recorded with its arguments; its
  result is an input of the function that makes it. \<open>RecvWaitDone\<close> is the completed
  receive \<open><-ep.waitDone\<close>, \<open>CloseWaitDone\<close> is \<open>close(ep.waitDone)\<close>, and
  \<open>GoWait h\<close> is \<open>go ep.wait(h)\<close>, with the function value it passes.
\<close>

datatype action =
    MuLock | MuUnlock | MuRLock | MuRUnlock
  | SysEpollCreate1 int
  | SysEventfd2
  | SysEpollCtl int ctl_op int "unix_EpollEvent option"
  | SysWrite int "8 word list"
  | SysClose int
  | SysEpollWait int nat
  | Invoke callback EpollEvent
  | CallOnError handler error
  | RecvWaitDone
  | CloseWaitDone
  | GoWait "handler option"

text \<open>
  How a call ends: it returns, it panics, or it never returns (it stays blocked in a
  receive or in the kernel).
\<close>

datatype 'a outcome = Returned 'a | Panicked | Blocked

text \<open>The callbacks a list of effects invokes, with the event each one is given.\<close>

fun invocations :: "action list \<Rightarrow> (callback \<times> EpollEvent) list" where
  "invocations [] = []"
| "invocations (Invoke cb e # t) = (cb, e) # invocations t"
| "invocations (_ # t) = invocations t"

text \<open>The handles a list of effects closes.\<close>

fun closes :: "action list \<Rightarrow> int list" where
  "closes [] = []"
| "closes (SysClose h # t) = h # closes t"
| "closes (_ # t) = closes t"

text \<open>
  The lengths of the buffer \<open>events\<close> with which a list of effects calls \<open>EpollWait\<close>,
  in order.
\<close>

fun wait_sizes :: "action list \<Rightarrow> nat list" where
  "wait_sizes [] = []"
| "wait_sizes (SysEpollWait h n # t) = n # wait_sizes t"
| "wait_sizes (_ # t) = wait_sizes t"

text \<open>
  Whether every callback of a list of effects is invoked while the mutex is free; the
  flag says whether the mutex is held (exclusively or shared) where the list starts.
\<close>

fun invoked_unlocked :: "bool \<Rightarrow> action list \<Rightarrow> bool" where
  "invoked_unlocked held [] = True"
| "invoked_unlocked held (MuLock # t) = invoked_unlocked True t"
| "invoked_unlocked held (MuRLock # t) = invoked_unlocked True t"
| "invoked_unlocked held (MuUnlock # t) = invoked_unlocked False t"
| "invoked_unlocked held (MuRUnlock # t) = invoked_unlocked False t"
| "invoked_unlocked held (Invoke cb e # t) = (\<not> held \<and> invoked_unlocked held t)"
| "invoked_unlocked held (_ # t) = invoked_unlocked held t"

subsection \<open>The instance\<close>

text \<open>
  \<open>map[int]func(EpollEvent)\<close>: an association list with one entry for a key. The
  order of the list has no meaning: a \<open>range\<close> over the map visits the entries in an
  order of its own (see \<open>range_order\<close>). The \<open>nil\<close> map is \<open>None\<close>: it reads as the empty map, and a store into it
  panics. Go's \<open>int\<close> is a HOL integer: the code does no arithmetic on handles.
\<close>

type_synonym table = "(int \<times> callback option) list"

record Epoll =
  fd :: int
  eventFd :: int
  closed :: bool
  waitDone :: bool
  callbacks :: "table option"

text \<open>
  \<open>waitDone\<close> is \<open>True\<close> when the channel has been closed. The read \<open>v, ok := m[k]\<close>
  of a map gives the zero value \<open>nil\<close> and \<open>false\<close> for a key that is not there.
\<close>

definition lookup :: "table option \<Rightarrow> int \<Rightarrow> callback option \<times> bool" where
  "lookup m k =
     (case m of
        None \<Rightarrow> (None, False)
      | Some t \<Rightarrow> (case map_of t k of None \<Rightarrow> (None, False) | Some cb \<Rightarrow> (cb, True)))"

subsection \<open>EpollCreate\<close>

text \<open>
  The inputs are the results of \<open>unix.EpollCreate1(0)\<close> (handle and error), of the raw
  system call \<open>SYS_EVENTFD2\<close> (\<open>r0\<close> and \<open>errno\<close>, zero for success) and of
  \<open>unix.EpollCtl\<close>. The results of the two \<open>unix.Close\<close> calls are discarded by the
  code.
\<close>

definition EpollCreate ::
  "EpollConfig option \<Rightarrow> int \<times> errno option \<Rightarrow> 64 word \<times> errno \<Rightarrow> errno option
     \<Rightarrow> (error + Epoll) \<times> action list" where
  "EpollCreate c create1 eventfd2 ctl =
     (let config = withDefaults c;
          (fd', err) = create1;
          (r0, errno) = eventfd2;
          eventFd' = sint r0;
          ev = \<lparr>Events = EPOLLIN, Fd = word_of_int eventFd'\<rparr>
      in
        (case err of
           Some e \<Rightarrow> (Inl (Errno e), [SysEpollCreate1 0])
         | None \<Rightarrow>
             (if \<not> errno = 0 then (Inl (Errno errno), [SysEpollCreate1 0, SysEventfd2])
              else
                (case ctl of
                   Some e \<Rightarrow>
                     (Inl (Errno e),
                      [SysEpollCreate1 0, SysEventfd2,
                       SysEpollCtl fd' EPOLL_CTL_ADD eventFd' (Some ev),
                       SysClose fd', SysClose eventFd'])
                 | None \<Rightarrow>
                     (Inr \<lparr>fd = fd', eventFd = eventFd', closed = False,
                           waitDone = False, callbacks = Some []\<rparr>,
                      [SysEpollCreate1 0, SysEventfd2,
                       SysEpollCtl fd' EPOLL_CTL_ADD eventFd' (Some ev),
                       GoWait (OnWaitError config)])))))"

subsection \<open>Add, Del, Mod\<close>

definition Add ::
  "Epoll \<Rightarrow> int \<Rightarrow> EpollEvent \<Rightarrow> callback option \<Rightarrow> errno option
     \<Rightarrow> error option outcome \<times> Epoll \<times> action list" where
  "Add ep fd' events cb ctl =
     (let ev = \<lparr>Events = events, Fd = word_of_int fd'\<rparr> in
      if closed ep then (Returned (Some ErrClosed), ep, [MuLock, MuUnlock])
      else if snd (lookup (callbacks ep) fd')
      then (Returned (Some ErrRegistered), ep, [MuLock, MuUnlock])
      else
        (case callbacks ep of
           None \<Rightarrow> (Panicked, ep, [MuLock, MuUnlock])
         | Some t \<Rightarrow>
             (Returned (map_option Errno ctl),
              ep\<lparr>callbacks := Some (AList.update fd' cb t)\<rparr>,
              [MuLock, SysEpollCtl (fd ep) EPOLL_CTL_ADD fd' (Some ev), MuUnlock])))"

definition Del ::
  "Epoll \<Rightarrow> int \<Rightarrow> errno option \<Rightarrow> error option outcome \<times> Epoll \<times> action list" where
  "Del ep fd' ctl =
     (if closed ep then (Returned (Some ErrClosed), ep, [MuLock, MuUnlock])
      else if \<not> snd (lookup (callbacks ep) fd')
      then (Returned (Some ErrNotRegistered), ep, [MuLock, MuUnlock])
      else
        (Returned (map_option Errno ctl),
         ep\<lparr>callbacks := map_option (AList.delete fd') (callbacks ep)\<rparr>,
         [MuLock, SysEpollCtl (fd ep) EPOLL_CTL_DEL fd' None, MuUnlock]))"

definition Mod ::
  "Epoll \<Rightarrow> int \<Rightarrow> EpollEvent \<Rightarrow> errno option
     \<Rightarrow> error option outcome \<times> Epoll \<times> action list" where
  "Mod ep fd' events ctl =
     (let ev = \<lparr>Events = events, Fd = word_of_int fd'\<rparr> in
      if closed ep then (Returned (Some ErrClosed), ep, [MuRLock, MuRUnlock])
      else if \<not> snd (lookup (callbacks ep) fd')
      then (Returned (Some ErrNotRegistered), ep, [MuRLock, MuRUnlock])
      else
        (Returned (map_option Errno ctl), ep,
         [MuRLock, SysEpollCtl (fd ep) EPOLL_CTL_MOD fd' (Some ev), MuRUnlock]))"

subsection \<open>Close\<close>

text \<open>
  \<open>Close\<close> has two parts, with the receive \<open><-ep.waitDone\<close> between them. The first
  part is the critical section of lines 129 to 142; its input is the result of
  \<open>unix.Write\<close>. It returns \<open>Some err\<close> when the call returns there, and \<open>None\<close>
  when the call goes on to the receive.
\<close>

definition Close_begin ::
  "Epoll \<Rightarrow> errno option \<Rightarrow> error option option \<times> Epoll \<times> action list" where
  "Close_begin ep wr =
     (if closed ep then (Some (Some ErrClosed), ep, [MuLock, MuUnlock])
      else
        let ep1 = ep\<lparr>closed := True\<rparr> in
        case wr of
          Some err \<Rightarrow>
            (Some (Some (Errno err)), ep1, [MuLock, SysWrite (eventFd ep) closeBytes, MuUnlock])
        | None \<Rightarrow> (None, ep1, [MuLock, SysWrite (eventFd ep) closeBytes, MuUnlock]))"

text \<open>
  Go does not fix the order in which \<open>range\<close> visits the entries of a map; the runtime
  chooses one at each loop. The choice is an input: a list \<open>ks\<close> of keys. The entries
  are visited in the order of their keys in \<open>ks\<close>, and the entries whose keys \<open>ks\<close>
  leaves out come after them. Every order of the entries is the order of some \<open>ks\<close>,
  and every \<open>ks\<close> visits each entry once.
\<close>

definition range_order :: "int list \<Rightarrow> table \<Rightarrow> table" where
  "range_order ks t =
     List.map_filter (\<lambda>k. map_option (Pair k) (map_of t k))
       (remdups ks @ filter (\<lambda>k. k \<notin> set ks) (map fst t))"

text \<open>
  \<open>for _, cb := range callbacks { if cb != nil { cb(_EPOLLCLOSED) } }\<close>, over the entries
  in the order in which they are visited.
\<close>

fun range_callbacks :: "table \<Rightarrow> action list" where
  "range_callbacks [] = []"
| "range_callbacks ((_, cb) # rest) =
     (case cb of
        None \<Rightarrow> range_callbacks rest
      | Some f \<Rightarrow> Invoke f EPOLLCLOSED # range_callbacks rest)"

text \<open>
  The second part, lines 144 to 166, on the instance as it is when the receive is tried:
  the receive completes once the channel is closed and blocks for ever otherwise. Its
  inputs are the result of \<open>unix.Close(ep.eventFd)\<close> and the order \<open>ks\<close> that the
  \<open>range\<close> loop takes.
\<close>

definition Close_end ::
  "Epoll \<Rightarrow> errno option \<Rightarrow> int list
     \<Rightarrow> error option outcome \<times> Epoll \<times> action list" where
  "Close_end ep cl ks =
     (if \<not> waitDone ep then (Blocked, ep, [])
      else
        case cl of
          Some err \<Rightarrow> (Returned (Some (Errno err)), ep, [RecvWaitDone, SysClose (eventFd ep)])
        | None \<Rightarrow>
            (Returned None, ep\<lparr>callbacks := None\<rparr>,
             [RecvWaitDone, SysClose (eventFd ep), MuLock, MuUnlock]
             @ range_callbacks
                 (range_order ks (case callbacks ep of None \<Rightarrow> [] | Some t \<Rightarrow> t))))"

subsection \<open>What the other goroutines do\<close>

text \<open>
  A step is one atomic action of a goroutine on the shared instance: a whole call of
  \<open>Add\<close>, \<open>Del\<close> or \<open>Mod\<close> (each holds the mutex from its first statement to its
  return), one of the two parts of a \<open>Close\<close>, or the \<open>close(ep.waitDone)\<close> of the
  wait loop when it ends. Only a goroutine that has set the closed flag reaches the
  second part of \<open>Close\<close>, and it gets past the receive only when the channel is closed.
  The instance that a step leaves does not depend on the order of a \<open>range\<close> loop.
\<close>

datatype step =
    StAdd int EpollEvent "callback option" "errno option"
  | StDel int "errno option"
  | StMod int EpollEvent "errno option"
  | StCloseBegin "errno option"
  | StCloseEnd "errno option"
  | StWaitExit

fun exec :: "Epoll \<Rightarrow> step \<Rightarrow> Epoll" where
  "exec ep (StAdd fd' events cb ctl) = fst (snd (Add ep fd' events cb ctl))"
| "exec ep (StDel fd' ctl) = fst (snd (Del ep fd' ctl))"
| "exec ep (StMod fd' events ctl) = fst (snd (Mod ep fd' events ctl))"
| "exec ep (StCloseBegin wr) = fst (snd (Close_begin ep wr))"
| "exec ep (StCloseEnd cl) = (if closed ep then fst (snd (Close_end ep cl [])) else ep)"
| "exec ep StWaitExit = ep\<lparr>waitDone := True\<rparr>"

definition run :: "Epoll \<Rightarrow> step list \<Rightarrow> Epoll" where
  "run ep steps = foldl exec ep steps"

text \<open>
  A whole call of \<open>Close\<close>: the first part, then the steps of the other goroutines
  while the call waits at the receive, then the second part with the order \<open>ks\<close> of
  its \<open>range\<close> loop. The effects are those of the calling goroutine only.
\<close>

definition Close ::
  "Epoll \<Rightarrow> errno option \<Rightarrow> step list \<Rightarrow> errno option \<Rightarrow> int list
     \<Rightarrow> error option outcome \<times> Epoll \<times> action list" where
  "Close ep wr others cl ks =
     (case Close_begin ep wr of
        (Some err, ep1, t1) \<Rightarrow> (Returned err, ep1, t1)
      | (None, ep1, t1) \<Rightarrow>
          (case Close_end (run ep1 others) cl ks of
             (r, ep2, t2) \<Rightarrow> (r, ep2, t1 @ t2)))"

subsection \<open>The wait loop\<close>

text \<open>
  The two buffers of the loop: \<open>events\<close>, of which only the length matters (the kernel
  fills it), and the backing array of the slice \<open>callbacks\<close>, whose length is the
  capacity of the slice. Both are made with the same size, at the start and when they
  grow.
\<close>

record wait_bufs =
  events_len :: nat
  cbuf :: "callback option list"

text \<open>
  The result of \<open>unix.EpollWait(ep.fd, events, -1)\<close>: an error, or the \<open>n\<close> ready
  entries the kernel has written to \<open>events[0..n)\<close>, in the order it reports them.
\<close>

datatype wait_result = WaitErr errno | WaitOk "unix_EpollEvent list"

text \<open>
  Lines 271 to 278, from index \<open>i\<close> on: each ready handle is looked up in the table
  and the function found (or \<open>nil\<close>) is stored in slot \<open>i\<close>. \<open>None\<close> is the return
  at the wake handle.
\<close>

fun resolve ::
  "int \<Rightarrow> table option \<Rightarrow> unix_EpollEvent list \<Rightarrow> nat \<Rightarrow> callback option list
     \<Rightarrow> callback option list option" where
  "resolve efd tbl [] i buf = Some buf"
| "resolve efd tbl (e # es) i buf =
     (let fd' = sint (Fd e) in
      if fd' = efd then None
      else resolve efd tbl es (Suc i) (buf[i := fst (lookup tbl fd')]))"

text \<open>
  Lines 282 to 287, from index \<open>i\<close> on: a slot that holds a function is invoked with the
  events of its entry and set to \<open>nil\<close>; a \<open>nil\<close> slot is passed over.
\<close>

fun dispatch ::
  "unix_EpollEvent list \<Rightarrow> nat \<Rightarrow> callback option list
     \<Rightarrow> callback option list \<times> action list" where
  "dispatch [] i buf = (buf, [])"
| "dispatch (e # es) i buf =
     (case buf ! i of
        None \<Rightarrow> dispatch es (Suc i) buf
      | Some cb \<Rightarrow>
          (case dispatch es (Suc i) (buf[i := None]) of
             (buf', t) \<Rightarrow> (buf', Invoke cb (Events e) # t)))"

text \<open>How one pass through the body of the \<open>for\<close> loop ends.\<close>

datatype control = Continue wait_bufs | Return | Panic

text \<open>
  One pass through the body of the loop. Its inputs are the result of \<open>EpollWait\<close> and
  the table \<open>ep.callbacks\<close> as it is while the loop holds the read lock. The function
  \<open>temporaryErr\<close> is defined in another file of the package and is a parameter. The
  kernel returns at most \<open>len(events)\<close> entries; with more, \<open>callbacks[:n]\<close> or
  \<open>events[i]\<close> would be out of range, and the goroutine panics.
\<close>

definition wait_iter ::
  "Epoll \<Rightarrow> (error \<Rightarrow> bool) \<Rightarrow> handler \<Rightarrow> wait_bufs \<Rightarrow> wait_result \<times> table option
     \<Rightarrow> control \<times> action list" where
  "wait_iter ep temporaryErr onError bufs inp =
     (let (res, tbl) = inp;
          w = SysEpollWait (fd ep) (events_len bufs)
      in
        (case res of
           WaitErr err \<Rightarrow>
             (if temporaryErr (Errno err) then (Continue bufs, [w])
              else (Return, [w, CallOnError onError (Errno err)]))
         | WaitOk ready \<Rightarrow>
             (let n = length ready in
              if n > length (cbuf bufs) \<or> n > events_len bufs then (Panic, [w])
              else
                (case resolve (eventFd ep) tbl ready 0 (cbuf bufs) of
                   None \<Rightarrow> (Return, [w, MuRLock, MuRUnlock])
                 | Some buf1 \<Rightarrow>
                     (case dispatch ready 0 buf1 of
                        (buf2, t) \<Rightarrow>
                          (Continue
                             (if n = events_len bufs \<and> n * 2 \<le> maxWaitEventsStop
                              then \<lparr>events_len = n * 2, cbuf = replicate (n * 2) None\<rparr>
                              else bufs\<lparr>cbuf := buf2\<rparr>),
                           [w, MuRLock, MuRUnlock] @ t))))))"

text \<open>
  The loop over the answers of the kernel, one for each pass. When the answers run out the
  loop is blocked in \<open>EpollWait\<close> for ever.
\<close>

fun wait_loop ::
  "Epoll \<Rightarrow> (error \<Rightarrow> bool) \<Rightarrow> handler \<Rightarrow> wait_bufs \<Rightarrow> (wait_result \<times> table option) list
     \<Rightarrow> unit outcome \<times> action list" where
  "wait_loop ep temporaryErr onError bufs [] =
     (Blocked, [SysEpollWait (fd ep) (events_len bufs)])"
| "wait_loop ep temporaryErr onError bufs (inp # rest) =
     (case wait_iter ep temporaryErr onError bufs inp of
        (Continue bufs', t) \<Rightarrow>
          (case wait_loop ep temporaryErr onError bufs' rest of (r, t') \<Rightarrow> (r, t @ t'))
      | (Return, t) \<Rightarrow> (Returned (), t)
      | (Panic, t) \<Rightarrow> (Panicked, t))"

text \<open>
  The deferred function of lines 244 to 249; its input is the result of
  \<open>unix.Close(ep.fd)\<close>.
\<close>

definition wait_deferred :: "Epoll \<Rightarrow> handler \<Rightarrow> errno option \<Rightarrow> action list" where
  "wait_deferred ep onError cl =
     SysClose (fd ep)
     # (case cl of None \<Rightarrow> [] | Some err \<Rightarrow> [CallOnError onError (Errno err)])
     @ [CloseWaitDone]"

definition wait_bufs_begin :: wait_bufs where
  "wait_bufs_begin =
     \<lparr>events_len = maxWaitEventsBegin, cbuf = replicate maxWaitEventsBegin None\<rparr>"

text \<open>
  The whole function: the loop, and the deferred function when the loop is left by a
  return or by a panic. \<open>wait\<close> has no result: \<open>Returned ()\<close> says that it returned.
\<close>

definition wait ::
  "Epoll \<Rightarrow> (error \<Rightarrow> bool) \<Rightarrow> handler \<Rightarrow> errno option \<Rightarrow> (wait_result \<times> table option) list
     \<Rightarrow> unit outcome \<times> action list" where
  "wait ep temporaryErr onError cl inputs =
     (case wait_loop ep temporaryErr onError wait_bufs_begin inputs of
        (Blocked, t) \<Rightarrow> (Blocked, t)
      | (r, t) \<Rightarrow> (r, t @ wait_deferred ep onError cl))"

text \<open>The buffers with which each pass of the loop starts, in order.\<close>

fun loop_bufs ::
  "Epoll \<Rightarrow> (error \<Rightarrow> bool) \<Rightarrow> handler \<Rightarrow> wait_bufs \<Rightarrow> (wait_result \<times> table option) list
     \<Rightarrow> wait_bufs list" where
  "loop_bufs ep temporaryErr onError bufs [] = [bufs]"
| "loop_bufs ep temporaryErr onError bufs (inp # rest) =
     bufs #
     (case fst (wait_iter ep temporaryErr onError bufs inp) of
        Continue bufs' \<Rightarrow> loop_bufs ep temporaryErr onError bufs' rest
      | _ \<Rightarrow> [])"

subsection \<open>The table of a reachable instance\<close>

text \<open>
  What the code keeps true of the table: the map is \<open>nil\<close> only once the instance is
  closed, and a handle has one entry.
\<close>

definition table_ok :: "Epoll \<Rightarrow> bool" where
  "table_ok ep =
     (case callbacks ep of None \<Rightarrow> closed ep | Some t \<Rightarrow> distinct (map fst t))"

subsection \<open>Concrete inputs\<close>

text \<open>
  An open instance with polling handle 3, wake handle 4 and three registered handles, one
  of them with a \<open>nil\<close> callback.
\<close>

definition ep_example :: Epoll where
  "ep_example =
     \<lparr>fd = 3, eventFd = 4, closed = False, waitDone = False,
      callbacks = Some [(5, Some 7), (6, None), (8, Some 9)]\<rparr>"

text \<open>A \<open>temporaryErr\<close> that takes \<open>EINTR\<close> (4) for transient.\<close>

definition temporary_example :: "error \<Rightarrow> bool" where
  "temporary_example e = (e = Errno 4)"

definition bufs_example :: wait_bufs where
  "bufs_example = \<lparr>events_len = 4, cbuf = [None, None, None, None]\<rparr>"

text \<open>
  A batch of four ready entries: handle 6 has a \<open>nil\<close> callback, handle 10 is not in
  the table, handles 5 and 8 have callbacks.
\<close>

definition ready_example :: "unix_EpollEvent list" where
  "ready_example =
     [\<lparr>Events = 1, Fd = 6\<rparr>, \<lparr>Events = 1, Fd = 10\<rparr>, \<lparr>Events = 1, Fd = 5\<rparr>, \<lparr>Events = 4, Fd = 8\<rparr>]"

text \<open>
  A batch that fills the first buffers: 1024 ready entries, for the handles 100 to 1123,
  none of which is in the table.
\<close>

definition batch_example :: "unix_EpollEvent list" where
  "batch_example = map (\<lambda>n. \<lparr>Events = 1, Fd = of_nat n\<rparr>) [100..<1124]"

section \<open>Properties\<close>

subsection \<open>The closed flag and the table\<close>

lemma run_Nil: "run ep [] = ep"
  by (simp add: run_def)

lemma run_Cons: "run ep (st # steps) = run (exec ep st) steps"
  by (simp add: run_def)

lemma closed_exec: "closed ep \<Longrightarrow> closed (exec ep st)"
  by (cases st)
     (simp_all add: Add_def Del_def Mod_def Close_begin_def Close_end_def Let_def
        split: option.splits)

lemma closed_run: "closed ep \<Longrightarrow> closed (run ep steps)"
  unfolding run_def by (induction steps arbitrary: ep) (simp_all add: closed_exec)

lemma Add_closed:
  "closed ep \<Longrightarrow> Add ep h ev cb ctl = (Returned (Some ErrClosed), ep, [MuLock, MuUnlock])"
  by (simp add: Add_def)

lemma Del_closed:
  "closed ep \<Longrightarrow> Del ep h ctl = (Returned (Some ErrClosed), ep, [MuLock, MuUnlock])"
  by (simp add: Del_def)

lemma Mod_closed:
  "closed ep \<Longrightarrow> Mod ep h ev ctl = (Returned (Some ErrClosed), ep, [MuRLock, MuRUnlock])"
  by (simp add: Mod_def)

lemma Close_closed:
  "closed ep \<Longrightarrow>
     Close ep wr others cl ks = (Returned (Some ErrClosed), ep, [MuLock, MuUnlock])"
  by (simp add: Close_def Close_begin_def)

text \<open>
  While the instance is closed no call changes the table; only the second part of a
  \<open>Close\<close> detaches it. So the table that \<open>Close\<close> finds after the receive is the one
  it left before it, unless another \<open>Close\<close> has detached it.
\<close>

lemma run_closed_callbacks:
  assumes "closed ep" and "\<forall>cl. StCloseEnd cl \<notin> set steps"
  shows "callbacks (run ep steps) = callbacks ep"
  using assms
proof (induction steps arbitrary: ep)
  case Nil
  then show ?case by (simp add: run_Nil)
next
  case (Cons st steps)
  have "closed (exec ep st)" using Cons.prems(1) by (rule closed_exec)
  moreover have "callbacks (exec ep st) = callbacks ep"
    using Cons.prems by (cases st) (auto simp: Add_def Del_def Mod_def Close_begin_def)
  ultimately show ?case using Cons.IH [of "exec ep st"] Cons.prems(2) by (simp add: run_Cons)
qed

lemma table_ok_exec: "table_ok ep \<Longrightarrow> table_ok (exec ep st)"
  by (cases st)
     (auto simp: table_ok_def Add_def Del_def Mod_def Close_begin_def Close_end_def Let_def
        AList.distinct_update AList.distinct_delete split: option.splits)

lemma table_ok_run: "table_ok ep \<Longrightarrow> table_ok (run ep steps)"
  unfolding run_def by (induction steps arbitrary: ep) (simp_all add: table_ok_exec)

lemma table_ok_EpollCreate: "EpollCreate c create1 eventfd2 ctl = (Inr ep, t) \<Longrightarrow> table_ok ep"
  by (cases create1; cases eventfd2)
     (auto simp: EpollCreate_def table_ok_def Let_def split: option.splits if_splits)

text \<open>The store of \<open>Add\<close> never meets the \<open>nil\<close> map.\<close>

lemma Add_never_panics: "table_ok ep \<Longrightarrow> fst (Add ep h ev cb ctl) \<noteq> Panicked"
  by (auto simp: table_ok_def Add_def Let_def split: option.splits)

text \<open>The function value that \<open>EpollCreate\<close> passes to \<open>wait\<close> is never \<open>nil\<close>.\<close>

lemma withDefaults_not_nil: "OnWaitError (withDefaults c) \<noteq> None"
  by (simp add: withDefaults_def Let_def split: option.splits)

lemma range_callbacks_invocations:
  "invocations (range_callbacks t) =
     List.map_filter (\<lambda>(k, cb). map_option (\<lambda>f. (f, EPOLLCLOSED)) cb) t"
  by (induction t) (auto split: option.splits)

lemma range_callbacks_unlocked: "invoked_unlocked False (range_callbacks t)"
  by (induction t) (auto split: option.splits)

text \<open>
  Whatever order the \<open>range\<close> loop takes, it visits each entry of a table (with one
  entry for a key) once.
\<close>

lemma map_filter_keys:
  "map fst (List.map_filter (\<lambda>k. map_option (Pair k) (g k)) xs) = filter (\<lambda>k. g k \<noteq> None) xs"
  by (induction xs) (auto split: option.splits)

lemma map_filter_set: "set (List.map_filter f xs) = {y. \<exists>x\<in>set xs. f x = Some y}"
  by (induction xs) (auto split: option.splits)

lemma range_order_mset:
  assumes "distinct (map fst t)"
  shows "mset (range_order ks t) = mset t"
proof -
  have "distinct (map fst (range_order ks t))"
    using assms by (auto simp: range_order_def map_filter_keys)
  then have d1: "distinct (range_order ks t)" by (simp add: distinct_map)
  have d2: "distinct t" using assms by (simp add: distinct_map)
  have "set (range_order ks t) = set t"
  proof (intro set_eqI iffI)
    fix x assume "x \<in> set (range_order ks t)"
    then obtain k where "map_option (Pair k) (map_of t k) = Some x"
      by (auto simp: range_order_def map_filter_set)
    then obtain v where "map_of t k = Some v" and "x = (k, v)" by auto
    then show "x \<in> set t" by (auto dest: map_of_SomeD)
  next
    fix x assume x: "x \<in> set t"
    obtain k v where kv: "x = (k, v)" by (cases x)
    with x assms have "map_of t k = Some v" by simp
    moreover have "k \<in> set (remdups ks @ filter (\<lambda>k. k \<notin> set ks) (map fst t))"
      using x kv by force
    ultimately show "x \<in> set (range_order ks t)"
      using kv by (force simp: range_order_def map_filter_set)
  qed
  with d1 d2 show ?thesis by (simp add: set_eq_iff_mset_eq_distinct)
qed

lemma map_filter_mset:
  "mset xs = mset ys \<Longrightarrow> mset (List.map_filter f xs) = mset (List.map_filter f ys)"
proof -
  assume a: "mset xs = mset ys"
  have "\<And>zs. mset (List.map_filter f zs) = image_mset (the \<circ> f) (filter_mset (\<lambda>x. f x \<noteq> None) (mset zs))"
    by (simp add: List.map_filter_def)
  then show ?thesis using a by simp
qed

subsection \<open>EpollCreate\<close>

text \<open>
  Of the three steps that can fail, the first has opened nothing when it fails, and the
  third closes both handles before it returns its error.
\<close>

lemma EpollCreate_other_failures:
  "EpollCreate c (h, Some e) eventfd2 ctl = (Inl (Errno e), [SysEpollCreate1 0]) \<and>
   fst (EpollCreate c (h, None) (r0, 0) (Some e)) = Inl (Errno e) \<and>
   closes (snd (EpollCreate c (h, None) (r0, 0) (Some e))) = [h, sint r0]"
  by (simp add: EpollCreate_def Let_def)

text \<open>
  Claim C3 says that every handle opened by an earlier step is closed before a failed
  construction returns its error. The code does not do this when the second step fails:
  with the polling handle 3 open and \<open>SYS_EVENTFD2\<close> failing with \<open>EMFILE\<close> (24),
  \<open>EpollCreate\<close> returns the error after the two system calls and closes nothing, so
  handle 3 stays open.
\<close>

theorem EpollCreate_eventfd_failure_leaks:
  "EpollCreate None (3, None) (- 1, 24) ctl =
     (Inl (Errno 24), [SysEpollCreate1 0, SysEventfd2]) \<and>
   closes (snd (EpollCreate None (3, None) (- 1, 24) ctl)) = []"
  by (simp add: EpollCreate_def Let_def)

subsection \<open>Add, Del, Mod\<close>

text \<open>
  Claim C2: a call \<open>Add(fd, events, cb)\<close> on an open instance whose table has no entry
  for \<open>fd\<close> stores \<open>cb\<close> whatever the result of the system call is, and makes the one
  system call \<open>EPOLL_CTL_ADD\<close>. When that call fails, \<open>Add\<close> returns its error, the
  entry for \<open>fd\<close> is in the table it leaves, and a later \<open>Add\<close> for the same \<open>fd\<close>
  returns \<open>ErrRegistered\<close> without a system call.
\<close>

theorem Add_keeps_entry_when_ctl_fails:
  assumes "\<not> closed ep" and "callbacks ep = Some t" and "\<not> snd (lookup (callbacks ep) h)"
  shows "fst (snd (Add ep h ev cb ctl)) = ep\<lparr>callbacks := Some (AList.update h cb t)\<rparr> \<and>
         snd (snd (Add ep h ev cb ctl)) =
           [MuLock,
            SysEpollCtl (fd ep) EPOLL_CTL_ADD h (Some \<lparr>Events = ev, Fd = word_of_int h\<rparr>),
            MuUnlock] \<and>
         fst (Add ep h ev cb (Some err)) = Returned (Some (Errno err)) \<and>
         lookup (callbacks (fst (snd (Add ep h ev cb (Some err))))) h = (cb, True) \<and>
         Add (fst (snd (Add ep h ev cb (Some err)))) h ev' cb' ctl' =
           (Returned (Some ErrRegistered), fst (snd (Add ep h ev cb (Some err))),
            [MuLock, MuUnlock])"
  using assms by (simp add: Add_def lookup_def AList.update_conv')

theorem Add_keeps_entry_when_ctl_fails_witness:
  "\<not> closed ep_example \<and>
   callbacks ep_example = Some [(5, Some 7), (6, None), (8, Some 9)] \<and>
   \<not> snd (lookup (callbacks ep_example) 10) \<and>
   Add ep_example 10 EPOLLIN (Some 1) (Some 9) =
     (Returned (Some (Errno 9)),
      ep_example\<lparr>callbacks := Some [(5, Some 7), (6, None), (8, Some 9), (10, Some 1)]\<rparr>,
      [MuLock, SysEpollCtl 3 EPOLL_CTL_ADD 10 (Some \<lparr>Events = EPOLLIN, Fd = 10\<rparr>), MuUnlock]) \<and>
   Add (ep_example\<lparr>callbacks := Some [(5, Some 7), (6, None), (8, Some 9), (10, Some 1)]\<rparr>)
       10 EPOLLIN (Some 2) None =
     (Returned (Some ErrRegistered),
      ep_example\<lparr>callbacks := Some [(5, Some 7), (6, None), (8, Some 9), (10, Some 1)]\<rparr>,
      [MuLock, MuUnlock])"
  using Add_keeps_entry_when_ctl_fails
    [of ep_example "[(5, Some 7), (6, None), (8, Some 9)]" 10 EPOLLIN "Some 1" "Some 9" 9
        EPOLLIN "Some 2" None]
  by (simp add: ep_example_def Add_def lookup_def)

text \<open>
  Claim C8: on an open instance, \<open>Del\<close> and \<open>Mod\<close> with a handle that has no entry in
  the table return \<open>ErrNotRegistered\<close>, leave the instance as it is, and make no system
  call: each takes and releases the lock and does nothing else.
\<close>

theorem Del_Mod_not_registered:
  assumes "\<not> closed ep" and "\<not> snd (lookup (callbacks ep) h)"
  shows "Del ep h ctl = (Returned (Some ErrNotRegistered), ep, [MuLock, MuUnlock]) \<and>
         Mod ep h ev ctl' = (Returned (Some ErrNotRegistered), ep, [MuRLock, MuRUnlock])"
  using assms by (simp add: Del_def Mod_def)

theorem Del_Mod_not_registered_witness:
  "\<not> closed ep_example \<and> \<not> snd (lookup (callbacks ep_example) 10) \<and>
   Del ep_example 10 None = (Returned (Some ErrNotRegistered), ep_example, [MuLock, MuUnlock]) \<and>
   Mod ep_example 10 EPOLLIN None =
     (Returned (Some ErrNotRegistered), ep_example, [MuRLock, MuRUnlock])"
  using Del_Mod_not_registered [of ep_example 10 None EPOLLIN None]
  by (simp add: ep_example_def lookup_def)

subsection \<open>Close\<close>

text \<open>
  Claim C5: \<open>Close\<close> on an instance that is already closed returns \<open>ErrClosed\<close> and
  leaves the instance as it is; it takes and releases the lock and does nothing else: no
  write to the wake handle, no close of a handle, no callback.
\<close>

theorem Close_again_is_inert:
  assumes "closed ep"
  shows "Close ep wr others cl ks = (Returned (Some ErrClosed), ep, [MuLock, MuUnlock])"
  using assms by (simp add: Close_def Close_begin_def)

theorem Close_again_is_inert_witness:
  "closed (ep_example\<lparr>closed := True\<rparr>) \<and>
   Close (ep_example\<lparr>closed := True\<rparr>) None [StWaitExit] None [8, 5] =
     (Returned (Some ErrClosed), ep_example\<lparr>closed := True\<rparr>, [MuLock, MuUnlock])"
  using Close_again_is_inert
    [of "ep_example\<lparr>closed := True\<rparr>" None "[StWaitExit]" None "[8, 5]"]
  by simp

text \<open>
  Claim C9: when the write to the wake handle fails in a first call of \<open>Close\<close>, the
  call returns the error of the write and leaves the closed flag set. All it has done is
  the failed write, under the lock: it invokes no callback, and it leaves the table and
  the channel as they were. Whatever the goroutines do later, every \<open>Add\<close>, \<open>Del\<close>,
  \<open>Mod\<close> and \<open>Close\<close> from then on returns \<open>ErrClosed\<close>.
\<close>

theorem Close_write_failure:
  assumes "\<not> closed ep"
  shows "Close ep (Some err) others cl ks =
           (Returned (Some (Errno err)), ep\<lparr>closed := True\<rparr>,
            [MuLock, SysWrite (eventFd ep) closeBytes, MuUnlock]) \<and>
         invocations (snd (snd (Close ep (Some err) others cl ks))) = [] \<and>
         (let ep' = run (ep\<lparr>closed := True\<rparr>) later in
            Add ep' h ev cb ctl = (Returned (Some ErrClosed), ep', [MuLock, MuUnlock]) \<and>
            Del ep' h ctl = (Returned (Some ErrClosed), ep', [MuLock, MuUnlock]) \<and>
            Mod ep' h ev ctl = (Returned (Some ErrClosed), ep', [MuRLock, MuRUnlock]) \<and>
            Close ep' wr others' cl' ks' = (Returned (Some ErrClosed), ep', [MuLock, MuUnlock]))"
proof -
  have c: "closed (run (ep\<lparr>closed := True\<rparr>) later)" by (rule closed_run) simp
  show ?thesis
    using assms Add_closed [OF c] Del_closed [OF c] Mod_closed [OF c] Close_closed [OF c]
    by (simp add: Close_def Close_begin_def Let_def)
qed

theorem Close_write_failure_witness:
  "\<not> closed ep_example \<and>
   Close ep_example (Some 9) [StWaitExit] None [] =
     (Returned (Some (Errno 9)), ep_example\<lparr>closed := True\<rparr>,
      [MuLock, SysWrite 4 closeBytes, MuUnlock]) \<and>
   callbacks (ep_example\<lparr>closed := True\<rparr>) = Some [(5, Some 7), (6, None), (8, Some 9)] \<and>
   Close (run (ep_example\<lparr>closed := True\<rparr>) [StDel 5 None]) None [StWaitExit] None [] =
     (Returned (Some ErrClosed), ep_example\<lparr>closed := True\<rparr>, [MuLock, MuUnlock])"
  using Close_write_failure
    [where ep = ep_example and err = 9 and others = "[StWaitExit]" and cl = None and ks = "[]"
       and later = "[StDel 5 None]" and h = 5 and ev = EPOLLIN and cb = None and ctl = None
       and wr = None and others' = "[StWaitExit]" and cl' = None and ks' = "[]"]
  by (simp add: ep_example_def run_def Del_def Let_def)

text \<open>
  Claim C1 says that in every first call of \<open>Close\<close> on an open instance, once the wait
  loop has closed the channel, \<open>Close\<close> detaches the table and invokes every callback
  left in it once with \<open>_EPOLLCLOSED\<close>; the comment on \<open>Add\<close> says the same of every
  callback. The code does not do this when the close of the wake handle fails. Here the
  write succeeds and the wait loop closes the channel, the close of handle 4 fails with
  \<open>EIO\<close> (5), and \<open>Close\<close> returns that error with the three entries still in the
  table and no callback invoked, whatever order the \<open>range\<close> loop would have taken. The
  closed flag stays set, so every later \<open>Close\<close> returns \<open>ErrClosed\<close> at once and the
  callbacks 7 and 9 never get \<open>_EPOLLCLOSED\<close>.
\<close>

theorem Close_eventfd_close_failure:
  "\<not> closed ep_example \<and>
   waitDone (run (ep_example\<lparr>closed := True\<rparr>) [StWaitExit]) \<and>
   Close ep_example None [StWaitExit] (Some 5) ks =
     (Returned (Some (Errno 5)),
      \<lparr>fd = 3, eventFd = 4, closed = True, waitDone = True,
       callbacks = Some [(5, Some 7), (6, None), (8, Some 9)]\<rparr>,
      [MuLock, SysWrite 4 closeBytes, MuUnlock, RecvWaitDone, SysClose 4]) \<and>
   invocations (snd (snd (Close ep_example None [StWaitExit] (Some 5) ks))) = [] \<and>
   Close \<lparr>fd = 3, eventFd = 4, closed = True, waitDone = True,
          callbacks = Some [(5, Some 7), (6, None), (8, Some 9)]\<rparr> wr others cl ks' =
     (Returned (Some ErrClosed),
      \<lparr>fd = 3, eventFd = 4, closed = True, waitDone = True,
       callbacks = Some [(5, Some 7), (6, None), (8, Some 9)]\<rparr>,
      [MuLock, MuUnlock])"
  by (simp add: ep_example_def run_def Close_def Close_begin_def Close_end_def)

text \<open>
  When the write and the close of the wake handle both succeed, a first \<open>Close\<close> does
  notify the callbacks: it returns \<open>nil\<close>, sets the table to the \<open>nil\<close> map (in which
  no handle is found) under the lock, and after releasing the lock invokes the callback of
  every entry that the table had at that moment and whose callback is not \<open>nil\<close>, once
  for each entry, with the event \<open>_EPOLLCLOSED\<close>, in the order that the \<open>range\<close> loop
  takes. The instance is closed from then on: every later \<open>Add\<close> returns \<open>ErrClosed\<close>.
\<close>

lemma Close_flushes_callbacks:
  assumes "\<not> closed ep" and "table_ok ep"
    and "waitDone (run (ep\<lparr>closed := True\<rparr>) others)"
  shows "case Close ep None others None ks of
           (r, ep', t) \<Rightarrow>
             r = Returned None \<and>
             ep' = (run (ep\<lparr>closed := True\<rparr>) others)\<lparr>callbacks := None\<rparr> \<and>
             closed ep' \<and>
             lookup (callbacks ep') k' = (None, False) \<and>
             t = [MuLock, SysWrite (eventFd ep) closeBytes, MuUnlock, RecvWaitDone,
                  SysClose (eventFd (run (ep\<lparr>closed := True\<rparr>) others)), MuLock, MuUnlock] @
                 range_callbacks
                   (range_order ks
                      (case callbacks (run (ep\<lparr>closed := True\<rparr>) others) of
                         None \<Rightarrow> [] | Some tbl \<Rightarrow> tbl)) \<and>
             mset (invocations t) =
               mset (List.map_filter (\<lambda>(k, cb). map_option (\<lambda>f. (f, EPOLLCLOSED)) cb)
                      (case callbacks (run (ep\<lparr>closed := True\<rparr>) others) of
                         None \<Rightarrow> [] | Some tbl \<Rightarrow> tbl)) \<and>
             invoked_unlocked False t \<and>
             Add (run ep' later) h ev cb ctl =
               (Returned (Some ErrClosed), run ep' later, [MuLock, MuUnlock])"
proof -
  let ?ep2 = "run (ep\<lparr>closed := True\<rparr>) others"
  let ?tbl = "case callbacks ?ep2 of None \<Rightarrow> [] | Some tbl \<Rightarrow> tbl"
  have c2: "closed ?ep2" by (rule closed_run) simp
  have c3: "closed (run (?ep2\<lparr>callbacks := None\<rparr>) later)"
    by (rule closed_run) (simp add: c2)
  have "table_ok (ep\<lparr>closed := True\<rparr>)"
    using assms(2) by (simp add: table_ok_def split: option.splits)
  then have "table_ok ?ep2" by (rule table_ok_run)
  then have "distinct (map fst ?tbl)" by (simp add: table_ok_def split: option.splits)
  then have "mset (range_order ks ?tbl) = mset ?tbl" by (rule range_order_mset)
  then have m: "mset (invocations (range_callbacks (range_order ks ?tbl))) =
      mset (List.map_filter (\<lambda>(k, cb). map_option (\<lambda>f. (f, EPOLLCLOSED)) cb) ?tbl)"
    unfolding range_callbacks_invocations by (rule map_filter_mset)
  show ?thesis
    using assms(1,3) c2 Add_closed [OF c3] m
    by (simp add: Close_def Close_begin_def Close_end_def range_callbacks_unlocked lookup_def)
qed

text \<open>The same call with two orders of the \<open>range\<close> loop.\<close>

lemma Close_flushes_callbacks_example:
  "Close ep_example None [StAdd 11 EPOLLIN (Some 1) None, StWaitExit] None [8, 5] =
     (Returned None,
      \<lparr>fd = 3, eventFd = 4, closed = True, waitDone = True, callbacks = None\<rparr>,
      [MuLock, SysWrite 4 closeBytes, MuUnlock, RecvWaitDone, SysClose 4, MuLock, MuUnlock,
       Invoke 9 EPOLLCLOSED, Invoke 7 EPOLLCLOSED]) \<and>
   Close ep_example None [StAdd 11 EPOLLIN (Some 1) None, StWaitExit] None [] =
     (Returned None,
      \<lparr>fd = 3, eventFd = 4, closed = True, waitDone = True, callbacks = None\<rparr>,
      [MuLock, SysWrite 4 closeBytes, MuUnlock, RecvWaitDone, SysClose 4, MuLock, MuUnlock,
       Invoke 7 EPOLLCLOSED, Invoke 9 EPOLLCLOSED])"
  by (simp add: ep_example_def run_def Add_def Close_def Close_begin_def Close_end_def
        range_order_def List.map_filter_simps)

subsection \<open>The wait loop: looking up and dispatching a batch\<close>

text \<open>The lookup stops with \<open>None\<close> as soon as an entry has the wake handle.\<close>

lemma resolve_wake:
  "\<exists>e\<in>set es. sint (Fd e) = efd \<Longrightarrow> resolve efd tbl es i buf = None"
  by (induction es arbitrary: i buf) (auto simp: Let_def)

text \<open>
  Without the wake handle in the batch, the lookup fills slot \<open>i + j\<close> with what the
  table has for the handle of entry \<open>j\<close>, and leaves the slots before \<open>i\<close> alone.
\<close>

lemma resolve_no_wake:
  assumes "\<forall>e\<in>set es. sint (Fd e) \<noteq> efd" and "i + length es \<le> length buf"
  shows "\<exists>buf'. resolve efd tbl es i buf = Some buf' \<and> length buf' = length buf \<and>
           (\<forall>j<length es. buf' ! (i + j) = fst (lookup tbl (sint (Fd (es ! j))))) \<and>
           (\<forall>k<i. buf' ! k = buf ! k)"
  using assms
proof (induction es arbitrary: i buf)
  case Nil
  then show ?case by simp
next
  case (Cons e es)
  let ?b = "buf[i := fst (lookup tbl (sint (Fd e)))]"
  from Cons.prems have nw: "\<forall>e\<in>set es. sint (Fd e) \<noteq> efd" and ne: "sint (Fd e) \<noteq> efd"
    and len: "Suc i + length es \<le> length ?b" and ilt: "i < length buf"
    by simp_all
  from Cons.IH [OF nw len] obtain buf' where
    r: "resolve efd tbl es (Suc i) ?b = Some buf'" and l: "length buf' = length ?b" and
    s: "\<forall>j<length es. buf' ! (Suc i + j) = fst (lookup tbl (sint (Fd (es ! j))))" and
    p: "\<forall>k<Suc i. buf' ! k = ?b ! k"
    by blast
  have "resolve efd tbl (e # es) i buf = Some buf'"
    using r ne by (simp add: Let_def)
  moreover have "length buf' = length buf" using l by simp
  moreover have "\<forall>j<length (e # es). buf' ! (i + j) = fst (lookup tbl (sint (Fd ((e # es) ! j))))"
  proof (intro allI impI)
    fix j assume "j < length (e # es)"
    show "buf' ! (i + j) = fst (lookup tbl (sint (Fd ((e # es) ! j))))"
    proof (cases j)
      case 0
      then show ?thesis using p ilt by simp
    next
      case (Suc j')
      then show ?thesis using s \<open>j < length (e # es)\<close> by simp
    qed
  qed
  moreover have "\<forall>k<i. buf' ! k = buf ! k" using p by simp
  ultimately show ?case by blast
qed

text \<open>
  The dispatch of slots that hold what \<open>g\<close> gives for each entry: the entries with
  a function are invoked in order, and all the slots of the batch are \<open>nil\<close> after it.
\<close>

lemma dispatch_resolved:
  assumes "i + length es \<le> length buf"
    and "\<forall>j<length es. buf ! (i + j) = g (es ! j)"
  shows "\<exists>buf'. dispatch es i buf =
           (buf', List.map_filter (\<lambda>e. map_option (\<lambda>cb. Invoke cb (Events e)) (g e)) es) \<and>
           length buf' = length buf \<and>
           (\<forall>j<length es. buf' ! (i + j) = None) \<and>
           (\<forall>k<i. buf' ! k = buf ! k)"
  using assms
proof (induction es arbitrary: i buf)
  case Nil
  then show ?case by simp
next
  case (Cons e es)
  from Cons.prems have ilt: "i < length buf" and hd: "buf ! i = g e"
    by (simp, fastforce)
  have tl: "\<forall>j<length es. buf ! (Suc i + j) = g (es ! j)"
  proof (intro allI impI)
    fix j assume "j < length es"
    then have "buf ! (i + Suc j) = g ((e # es) ! Suc j)" using Cons.prems(2) by (metis length_Cons Suc_less_eq)
    then show "buf ! (Suc i + j) = g (es ! j)" by simp
  qed
  show ?case
  proof (cases "g e")
    case None
    from Cons.prems have len: "Suc i + length es \<le> length buf" by simp
    from Cons.IH [OF len tl] obtain buf' where
      d: "dispatch es (Suc i) buf =
           (buf', List.map_filter (\<lambda>e. map_option (\<lambda>cb. Invoke cb (Events e)) (g e)) es)" and
      l: "length buf' = length buf" and
      s: "\<forall>j<length es. buf' ! (Suc i + j) = None" and
      p: "\<forall>k<Suc i. buf' ! k = buf ! k"
      by blast
    have "dispatch (e # es) i buf =
           (buf', List.map_filter (\<lambda>e. map_option (\<lambda>cb. Invoke cb (Events e)) (g e)) (e # es))"
      using d hd None by simp
    moreover have "\<forall>j<length (e # es). buf' ! (i + j) = None"
    proof (intro allI impI)
      fix j assume a: "j < length (e # es)"
      show "buf' ! (i + j) = None"
      proof (cases j)
        case 0
        then show ?thesis using p hd None by simp
      next
        case (Suc j')
        then show ?thesis using s a by simp
      qed
    qed
    moreover have "\<forall>k<i. buf' ! k = buf ! k" using p by simp
    ultimately show ?thesis using l by blast
  next
    case (Some cb)
    let ?b = "buf[i := None]"
    from Cons.prems have len: "Suc i + length es \<le> length ?b" by simp
    have tl': "\<forall>j<length es. ?b ! (Suc i + j) = g (es ! j)" using tl by simp
    from Cons.IH [OF len tl'] obtain buf' where
      d: "dispatch es (Suc i) ?b =
           (buf', List.map_filter (\<lambda>e. map_option (\<lambda>cb. Invoke cb (Events e)) (g e)) es)" and
      l: "length buf' = length ?b" and
      s: "\<forall>j<length es. buf' ! (Suc i + j) = None" and
      p: "\<forall>k<Suc i. buf' ! k = ?b ! k"
      by blast
    have "dispatch (e # es) i buf =
           (buf', List.map_filter (\<lambda>e. map_option (\<lambda>cb. Invoke cb (Events e)) (g e)) (e # es))"
      using d hd Some by simp
    moreover have "\<forall>j<length (e # es). buf' ! (i + j) = None"
    proof (intro allI impI)
      fix j assume a: "j < length (e # es)"
      show "buf' ! (i + j) = None"
      proof (cases j)
        case 0
        then show ?thesis using p ilt by simp
      next
        case (Suc j')
        then show ?thesis using s a by simp
      qed
    qed
    moreover have "\<forall>k<i. buf' ! k = buf ! k" using p by simp
    ultimately show ?thesis using l by auto
  qed
qed

lemma dispatch_Cons_fst:
  "fst (dispatch (e # es) i buf) =
     (case buf ! i of
        None \<Rightarrow> fst (dispatch es (Suc i) buf)
      | Some cb \<Rightarrow> fst (dispatch es (Suc i) (buf[i := None])))"
  by (simp split: option.splits prod.splits)

lemma dispatch_Cons_snd:
  "snd (dispatch (e # es) i buf) =
     (case buf ! i of
        None \<Rightarrow> snd (dispatch es (Suc i) buf)
      | Some cb \<Rightarrow> Invoke cb (Events e) # snd (dispatch es (Suc i) (buf[i := None])))"
  by (simp split: option.splits prod.splits)

lemma dispatch_length: "length (fst (dispatch es i buf)) = length buf"
  by (induction es arbitrary: i buf)
     (simp_all only: dispatch_Cons_fst dispatch.simps(1) fst_conv length_list_update
        split: option.splits, simp_all)

lemma resolve_length: "resolve efd tbl es i buf = Some buf' \<Longrightarrow> length buf' = length buf"
  by (induction es arbitrary: i buf) (auto simp: Let_def split: if_splits)

lemma dispatch_only_invokes:
  "a \<in> set (snd (dispatch es i buf)) \<Longrightarrow> \<exists>cb e. a = Invoke cb e"
proof (induction es arbitrary: i buf)
  case Nil
  then show ?case by simp
next
  case (Cons e es)
  show ?case
  proof (cases "buf ! i")
    case None
    then show ?thesis using Cons.prems Cons.IH [of "Suc i" buf]
      by (simp only: dispatch_Cons_snd option.case)
  next
    case (Some cb)
    then show ?thesis using Cons.prems Cons.IH [of "Suc i" "buf[i := None]"]
      by (simp only: dispatch_Cons_snd option.case set_simps insert_iff) blast
  qed
qed

lemma invocations_map_filter:
  "invocations (List.map_filter (\<lambda>e. map_option (\<lambda>cb. Invoke cb (ev e)) (g e)) es) =
   List.map_filter (\<lambda>e. map_option (\<lambda>cb. (cb, ev e)) (g e)) es"
  by (induction es) (simp_all split: option.splits)

lemma invoked_unlocked_map_filter:
  "invoked_unlocked False (List.map_filter (\<lambda>e. map_option (\<lambda>cb. Invoke cb (ev e)) (g e)) es)"
  by (induction es) (simp_all split: option.splits)

text \<open>A pass over a batch without the wake handle, within the capacity of the buffers.\<close>

lemma wait_iter_dispatches:
  assumes "\<forall>e\<in>set ready. sint (Fd e) \<noteq> eventFd ep"
    and "length ready \<le> events_len bufs" and "events_len bufs = length (cbuf bufs)"
  shows "\<exists>bufs'. wait_iter ep temporaryErr onError bufs (WaitOk ready, tbl) =
           (Continue bufs',
            [SysEpollWait (fd ep) (events_len bufs), MuRLock, MuRUnlock] @
            List.map_filter
              (\<lambda>e. map_option (\<lambda>cb. Invoke cb (Events e)) (fst (lookup tbl (sint (Fd e))))) ready) \<and>
           events_len bufs' =
             (if length ready = events_len bufs \<and> 2 * events_len bufs \<le> 32768
              then 2 * events_len bufs else events_len bufs) \<and>
           length (cbuf bufs') = events_len bufs' \<and>
           (\<forall>i<length ready. cbuf bufs' ! i = None)"
proof -
  from assms(2,3) have len: "0 + length ready \<le> length (cbuf bufs)" by simp
  from resolve_no_wake [OF assms(1) len, of tbl] obtain buf1 where
    r: "resolve (eventFd ep) tbl ready 0 (cbuf bufs) = Some buf1" and
    l1: "length buf1 = length (cbuf bufs)" and
    s1: "\<forall>j<length ready. buf1 ! (0 + j) = fst (lookup tbl (sint (Fd (ready ! j))))"
    by blast
  from len l1 have len1: "0 + length ready \<le> length buf1" by simp
  from dispatch_resolved [OF len1, of "\<lambda>e. fst (lookup tbl (sint (Fd e)))"] s1 obtain buf2 where
    d: "dispatch ready 0 buf1 =
          (buf2, List.map_filter
              (\<lambda>e. map_option (\<lambda>cb. Invoke cb (Events e)) (fst (lookup tbl (sint (Fd e))))) ready)" and
    l2: "length buf2 = length buf1" and
    s2: "\<forall>j<length ready. buf2 ! (0 + j) = None"
    by blast
  show ?thesis
    using r d l1 l2 s2 assms(2,3)
    by (simp add: wait_iter_def Let_def maxWaitEventsStop_def)
qed

subsection \<open>The wait loop: effects and buffers\<close>

text \<open>The loop itself closes no handle and does not close the channel.\<close>

lemma wait_iter_effects:
  assumes "a \<in> set (snd (wait_iter ep temporaryErr onError bufs inp))"
  shows "a \<noteq> CloseWaitDone \<and> a \<noteq> SysClose h"
proof (cases inp)
  case (Pair res tbl)
  show ?thesis
  proof (cases res)
    case (WaitErr err)
    then show ?thesis using assms Pair by (auto simp: wait_iter_def Let_def split: if_splits)
  next
    case (WaitOk ready)
    show ?thesis
    proof (cases "length ready > length (cbuf bufs) \<or> length ready > events_len bufs")
      case True
      then show ?thesis using assms Pair WaitOk by (auto simp: wait_iter_def Let_def)
    next
      case False
      show ?thesis
      proof (cases "resolve (eventFd ep) tbl ready 0 (cbuf bufs)")
        case None
        then show ?thesis using assms Pair WaitOk False by (auto simp: wait_iter_def Let_def)
      next
        case (Some buf1)
        obtain buf2 t where d: "dispatch ready 0 buf1 = (buf2, t)" by force
        from dispatch_only_invokes [of _ ready 0 buf1] d
        have "\<And>b. b \<in> set t \<Longrightarrow> \<exists>cb e. b = Invoke cb e" by simp
        then show ?thesis using assms Pair WaitOk False Some d
          by (auto simp: wait_iter_def Let_def)
      qed
    qed
  qed
qed

lemma wait_loop_effects:
  "a \<in> set (snd (wait_loop ep temporaryErr onError bufs inputs)) \<Longrightarrow>
     a \<noteq> CloseWaitDone \<and> a \<noteq> SysClose h"
proof (induction inputs arbitrary: bufs)
  case Nil
  then show ?case by auto
next
  case (Cons inp rest)
  obtain c t where it: "wait_iter ep temporaryErr onError bufs inp = (c, t)" by force
  have t: "\<And>b. b \<in> set t \<Longrightarrow> b \<noteq> CloseWaitDone \<and> b \<noteq> SysClose h"
    using wait_iter_effects [of _ ep temporaryErr onError bufs inp h] it by simp
  show ?case
  proof (cases c)
    case (Continue bufs')
    obtain r t' where lp: "wait_loop ep temporaryErr onError bufs' rest = (r, t')" by force
    from Cons.prems it Continue lp have "a \<in> set t \<or> a \<in> set t'" by simp
    then show ?thesis using t Cons.IH [of bufs'] lp by auto
  next
    case Return
    then show ?thesis using Cons.prems it t by simp
  next
    case Panic
    then show ?thesis using Cons.prems it t by simp
  qed
qed

text \<open>Every pass starts with the call of \<open>EpollWait\<close>.\<close>

lemma wait_iter_starts:
  "\<exists>t. snd (wait_iter ep temporaryErr onError bufs inp) = SysEpollWait (fd ep) (events_len bufs) # t"
proof (cases inp)
  case (Pair res tbl)
  show ?thesis
  proof (cases res)
    case (WaitErr err)
    then show ?thesis using Pair by (simp add: wait_iter_def Let_def)
  next
    case (WaitOk ready)
    then show ?thesis using Pair
      by (simp add: wait_iter_def Let_def split: option.splits prod.splits)
  qed
qed

lemma wait_loop_starts:
  "\<exists>t. snd (wait_loop ep temporaryErr onError bufs inputs) =
         SysEpollWait (fd ep) (events_len bufs) # t"
proof (cases inputs)
  case Nil
  then show ?thesis by simp
next
  case (Cons inp rest)
  obtain c t where it: "wait_iter ep temporaryErr onError bufs inp = (c, t)" by force
  from wait_iter_starts [of ep temporaryErr onError bufs inp] it
  obtain t1 where t: "t = SysEpollWait (fd ep) (events_len bufs) # t1" by auto
  show ?thesis using Cons it t by (cases c) (simp_all split: prod.splits)
qed

text \<open>A pass never shrinks the buffers, keeps them of one size, and stays under the ceiling.\<close>

lemma wait_iter_capacity:
  assumes "wait_iter ep temporaryErr onError bufs inp = (Continue bufs', t)"
    and "events_len bufs = length (cbuf bufs)" and "events_len bufs \<le> maxWaitEventsStop"
  shows "events_len bufs \<le> events_len bufs' \<and> events_len bufs' = length (cbuf bufs') \<and>
         events_len bufs' \<le> maxWaitEventsStop"
proof (cases inp)
  case (Pair res tbl)
  show ?thesis
  proof (cases res)
    case (WaitErr err)
    then show ?thesis using assms Pair by (auto simp: wait_iter_def Let_def split: if_splits)
  next
    case (WaitOk ready)
    show ?thesis
    proof (cases "resolve (eventFd ep) tbl ready 0 (cbuf bufs)")
      case None
      then show ?thesis using assms Pair WaitOk
        by (auto simp: wait_iter_def Let_def split: if_splits)
    next
      case (Some buf1)
      obtain buf2 t' where d: "dispatch ready 0 buf1 = (buf2, t')" by force
      from dispatch_length [of ready 0 buf1] d resolve_length [OF Some]
      have "length buf2 = length (cbuf bufs)" by simp
      then show ?thesis using assms Pair WaitOk Some d
        by (auto simp: wait_iter_def Let_def split: if_splits)
    qed
  qed
qed

lemma loop_bufs_capacity:
  assumes "events_len bufs = length (cbuf bufs)" and "events_len bufs \<le> maxWaitEventsStop"
  shows "sorted (map events_len (loop_bufs ep temporaryErr onError bufs inputs)) \<and>
         (\<forall>b\<in>set (loop_bufs ep temporaryErr onError bufs inputs).
            events_len bufs \<le> events_len b \<and> events_len b = length (cbuf b) \<and>
            events_len b \<le> maxWaitEventsStop)"
  using assms
proof (induction inputs arbitrary: bufs)
  case Nil
  then show ?case by simp
next
  case (Cons inp rest)
  obtain c t where it: "wait_iter ep temporaryErr onError bufs inp = (c, t)" by force
  show ?case
  proof (cases c)
    case (Continue bufs')
    from wait_iter_capacity [OF it [unfolded Continue] Cons.prems]
    have le: "events_len bufs \<le> events_len bufs'" and inv: "events_len bufs' = length (cbuf bufs')"
      and ub: "events_len bufs' \<le> maxWaitEventsStop" by simp_all
    from Cons.IH [OF inv ub] le Cons.prems it Continue show ?thesis by fastforce
  next
    case Return
    then show ?thesis using it Cons.prems by simp
  next
    case Panic
    then show ?thesis using it Cons.prems by simp
  qed
qed

lemma closes_none: "(\<And>a h. a \<in> set t \<Longrightarrow> a \<noteq> SysClose h) \<Longrightarrow> closes t = []"
proof (induction t)
  case Nil
  then show ?case by simp
next
  case (Cons a t)
  then show ?case by (cases a) auto
qed

lemma closes_append: "closes (t @ u) = closes t @ closes u"
proof (induction t)
  case Nil
  then show ?case by simp
next
  case (Cons a t)
  then show ?case by (cases a) simp_all
qed

lemma wait_deferred_closes: "closes (wait_deferred ep onError cl) = [fd ep]"
  by (simp add: wait_deferred_def split: option.splits)

lemma wait_deferred_count: "count_list (wait_deferred ep onError cl) CloseWaitDone = 1"
  by (simp add: wait_deferred_def split: option.splits)

lemma wait_not_blocked:
  assumes "fst (wait ep temporaryErr onError cl inputs) \<noteq> Blocked"
  shows "snd (wait ep temporaryErr onError cl inputs) =
           snd (wait_loop ep temporaryErr onError wait_bufs_begin inputs) @
           wait_deferred ep onError cl"
proof -
  obtain r t where lp: "wait_loop ep temporaryErr onError wait_bufs_begin inputs = (r, t)"
    by force
  show ?thesis using assms lp by (cases r) (simp_all add: wait_def)
qed

text \<open>
  The sizes with which the loop calls \<open>EpollWait\<close> are the sizes of the buffers of its
  passes, and the deferred function calls \<open>EpollWait\<close> no more.
\<close>

lemma wait_sizes_append: "wait_sizes (t @ u) = wait_sizes t @ wait_sizes u"
proof (induction t)
  case Nil
  then show ?case by simp
next
  case (Cons a t)
  then show ?case by (cases a) simp_all
qed

lemma wait_sizes_none: "(\<And>a h n. a \<in> set t \<Longrightarrow> a \<noteq> SysEpollWait h n) \<Longrightarrow> wait_sizes t = []"
proof (induction t)
  case Nil
  then show ?case by simp
next
  case (Cons a t)
  then show ?case by (cases a) auto
qed

lemma wait_sizes_dispatch: "wait_sizes (snd (dispatch es i buf)) = []"
proof (rule wait_sizes_none)
  fix a h n
  assume "a \<in> set (snd (dispatch es i buf))"
  then obtain cb e where "a = Invoke cb e" using dispatch_only_invokes by blast
  then show "a \<noteq> SysEpollWait h n" by simp
qed

lemma wait_iter_sizes:
  "wait_sizes (snd (wait_iter ep temporaryErr onError bufs inp)) = [events_len bufs]"
proof (cases inp)
  case (Pair res tbl)
  show ?thesis
  proof (cases res)
    case (WaitErr err)
    then show ?thesis using Pair by (simp add: wait_iter_def Let_def)
  next
    case (WaitOk ready)
    show ?thesis
    proof (cases "resolve (eventFd ep) tbl ready 0 (cbuf bufs)")
      case None
      then show ?thesis using Pair WaitOk by (simp add: wait_iter_def Let_def)
    next
      case (Some buf1)
      obtain buf2 t where d: "dispatch ready 0 buf1 = (buf2, t)" by force
      from wait_sizes_dispatch [of ready 0 buf1] d have "wait_sizes t = []" by simp
      then show ?thesis using Pair WaitOk Some d by (simp add: wait_iter_def Let_def)
    qed
  qed
qed

text \<open>How the loop goes on after a pass, and what \<open>wait\<close> adds to the loop.\<close>

lemma wait_loop_Continue:
  "wait_iter ep temporaryErr onError bufs inp = (Continue bufs', t) \<Longrightarrow>
   wait_loop ep temporaryErr onError bufs (inp # rest) =
     (fst (wait_loop ep temporaryErr onError bufs' rest),
      t @ snd (wait_loop ep temporaryErr onError bufs' rest))"
  by (simp split: prod.splits)

lemma wait_loop_Return:
  "fst (wait_iter ep temporaryErr onError bufs inp) = Return \<Longrightarrow>
   wait_loop ep temporaryErr onError bufs (inp # rest) =
     (Returned (), snd (wait_iter ep temporaryErr onError bufs inp))"
  by (cases "wait_iter ep temporaryErr onError bufs inp") simp

lemma wait_loop_Panic:
  "fst (wait_iter ep temporaryErr onError bufs inp) = Panic \<Longrightarrow>
   wait_loop ep temporaryErr onError bufs (inp # rest) =
     (Panicked, snd (wait_iter ep temporaryErr onError bufs inp))"
  by (cases "wait_iter ep temporaryErr onError bufs inp") simp

lemma wait_loop_sizes:
  "wait_sizes (snd (wait_loop ep temporaryErr onError bufs inputs)) =
     map events_len (loop_bufs ep temporaryErr onError bufs inputs)"
proof (induction inputs arbitrary: bufs)
  case Nil
  then show ?case by simp
next
  case (Cons inp rest)
  obtain c t where it: "wait_iter ep temporaryErr onError bufs inp = (c, t)" by force
  from wait_iter_sizes [of ep temporaryErr onError bufs inp] it
  have st: "wait_sizes t = [events_len bufs]" by simp
  show ?case
  proof (cases c)
    case (Continue bufs')
    from wait_loop_Continue [OF it [unfolded Continue], of rest] Cons.IH [of bufs'] st it Continue
    show ?thesis by (simp add: wait_sizes_append)
  next
    case Return
    then show ?thesis using it st by simp
  next
    case Panic
    then show ?thesis using it st by simp
  qed
qed

lemma wait_sizes_deferred: "wait_sizes (wait_deferred ep onError cl) = []"
  by (simp add: wait_deferred_def split: option.splits)

lemma wait_unfold:
  "wait ep temporaryErr onError cl inputs =
     (if fst (wait_loop ep temporaryErr onError wait_bufs_begin inputs) = Blocked
      then wait_loop ep temporaryErr onError wait_bufs_begin inputs
      else (fst (wait_loop ep temporaryErr onError wait_bufs_begin inputs),
            snd (wait_loop ep temporaryErr onError wait_bufs_begin inputs) @
            wait_deferred ep onError cl))"
proof -
  obtain r t where lp: "wait_loop ep temporaryErr onError wait_bufs_begin inputs = (r, t)"
    by force
  show ?thesis using lp by (cases r) (simp_all add: wait_def)
qed

lemma wait_sizes_wait:
  "wait_sizes (snd (wait ep temporaryErr onError cl inputs)) =
     wait_sizes (snd (wait_loop ep temporaryErr onError wait_bufs_begin inputs))"
  by (simp add: wait_unfold wait_sizes_append wait_sizes_deferred)

text \<open>The handles of the batch of 1024 entries.\<close>

lemma sint_of_nat_small: "n < 2 ^ 31 \<Longrightarrow> sint (of_nat n :: 32 word) = int n"
proof -
  assume "n < 2 ^ 31"
  then have "int n < 2 ^ 31" by (metis of_nat_less_iff of_nat_numeral of_nat_power)
  then have "signed_take_bit 31 (int n) = int n"
    by (intro signed_take_bit_int_eq_self) simp_all
  then show ?thesis by (simp add: signed_of_nat)
qed

lemma batch_example_handles:
  assumes "e \<in> set batch_example"
  shows "100 \<le> sint (Fd e) \<and> sint (Fd e) < 1124"
proof -
  from assms obtain n where n: "n \<in> set [100..<1124]" and e: "e = \<lparr>Events = 1, Fd = of_nat n\<rparr>"
    unfolding batch_example_def set_map by blast
  from n have b: "100 \<le> n \<and> n < 1124" by (simp only: set_upt atLeastLessThan_iff)
  then have "n < 2 ^ 31" by simp
  then have "sint (Fd e) = int n" using e by (simp add: sint_of_nat_small)
  then show ?thesis using b by simp
qed

lemma batch_example_length: "length batch_example = 1024"
  unfolding batch_example_def by (simp only: length_map length_upt)

lemma map_filter_all_None: "(\<And>x. x \<in> set xs \<Longrightarrow> f x = None) \<Longrightarrow> List.map_filter f xs = []"
  by (induction xs) simp_all

subsection \<open>The wait loop: the claims\<close>

text \<open>
  Claim C4: when the batch of a pass has the wake handle among its entries (and the
  kernel has returned no more entries than the buffer holds), the pass takes the read
  lock, releases it and leaves the loop; the loop returns there whatever the kernel
  would answer next. That pass invokes no callback at all, so none for an entry after
  the wake handle.
\<close>

theorem wait_wake_handle_ends_loop:
  assumes "e \<in> set ready" and "sint (Fd e) = eventFd ep"
    and "length ready \<le> events_len bufs" and "events_len bufs = length (cbuf bufs)"
  shows "wait_iter ep temporaryErr onError bufs (WaitOk ready, tbl) =
           (Return, [SysEpollWait (fd ep) (events_len bufs), MuRLock, MuRUnlock]) \<and>
         wait_loop ep temporaryErr onError bufs ((WaitOk ready, tbl) # rest) =
           (Returned (), [SysEpollWait (fd ep) (events_len bufs), MuRLock, MuRUnlock]) \<and>
         invocations (snd (wait_loop ep temporaryErr onError bufs ((WaitOk ready, tbl) # rest))) = []"
proof -
  have "resolve (eventFd ep) tbl ready 0 (cbuf bufs) = None"
    using assms(1,2) by (intro resolve_wake) blast
  then have it: "wait_iter ep temporaryErr onError bufs (WaitOk ready, tbl) =
           (Return, [SysEpollWait (fd ep) (events_len bufs), MuRLock, MuRUnlock])"
    using assms(3,4) by (simp add: wait_iter_def Let_def)
  then show ?thesis by simp
qed

theorem wait_wake_handle_ends_loop_witness:
  "\<lparr>Events = 1, Fd = 4\<rparr> \<in> set [\<lparr>Events = 1, Fd = 5\<rparr>, \<lparr>Events = 1, Fd = 4\<rparr>, \<lparr>Events = 4, Fd = 8\<rparr>] \<and>
   sint (Fd \<lparr>Events = 1, Fd = 4\<rparr>) = eventFd ep_example \<and>
   wait_loop ep_example temporary_example defaultOnWaitError wait_bufs_begin
     [(WaitOk [\<lparr>Events = 1, Fd = 5\<rparr>, \<lparr>Events = 1, Fd = 4\<rparr>, \<lparr>Events = 4, Fd = 8\<rparr>],
       callbacks ep_example),
      (WaitOk [\<lparr>Events = 4, Fd = 8\<rparr>], callbacks ep_example)] =
     (Returned (), [SysEpollWait 3 1024, MuRLock, MuRUnlock])"
  using wait_wake_handle_ends_loop
    [of "\<lparr>Events = 1, Fd = 4\<rparr>"
        "[\<lparr>Events = 1, Fd = 5\<rparr>, \<lparr>Events = 1, Fd = 4\<rparr>, \<lparr>Events = 4, Fd = 8\<rparr>]"
        ep_example wait_bufs_begin temporary_example defaultOnWaitError "callbacks ep_example"
        "[(WaitOk [\<lparr>Events = 4, Fd = 8\<rparr>], callbacks ep_example)]"]
  by (simp add: ep_example_def wait_bufs_begin_def maxWaitEventsBegin_def)

text \<open>
  Claim C10: when a batch without the wake handle is dispatched, the pass goes on to the
  next one (it does not fail), and its effects are the call of \<open>EpollWait\<close>, the read
  lock taken and released, and then, in the order of the batch, one invocation for each
  entry whose handle has a callback that is not \<open>nil\<close> in the table, with the events
  of that entry. An entry whose handle is not in the table, or has a \<open>nil\<close> callback,
  gives no invocation. The callbacks are invoked with the lock released, and after the
  pass every slot of the batch is \<open>nil\<close>.
\<close>

theorem wait_dispatch_skips_nil:
  assumes "\<forall>e\<in>set ready. sint (Fd e) \<noteq> eventFd ep"
    and "length ready \<le> events_len bufs" and "events_len bufs = length (cbuf bufs)"
  shows "\<exists>bufs'.
           wait_iter ep temporaryErr onError bufs (WaitOk ready, tbl) =
             (Continue bufs',
              [SysEpollWait (fd ep) (events_len bufs), MuRLock, MuRUnlock] @
              List.map_filter
                (\<lambda>e. map_option (\<lambda>cb. Invoke cb (Events e)) (fst (lookup tbl (sint (Fd e)))))
                ready) \<and>
           invocations (snd (wait_iter ep temporaryErr onError bufs (WaitOk ready, tbl))) =
             List.map_filter
               (\<lambda>e. map_option (\<lambda>cb. (cb, Events e)) (fst (lookup tbl (sint (Fd e))))) ready \<and>
           invoked_unlocked False (snd (wait_iter ep temporaryErr onError bufs (WaitOk ready, tbl))) \<and>
           (\<forall>i<length ready. cbuf bufs' ! i = None)"
proof -
  from wait_iter_dispatches [OF assms, of temporaryErr onError tbl] obtain bufs' where
    it: "wait_iter ep temporaryErr onError bufs (WaitOk ready, tbl) =
           (Continue bufs',
            [SysEpollWait (fd ep) (events_len bufs), MuRLock, MuRUnlock] @
            List.map_filter
              (\<lambda>e. map_option (\<lambda>cb. Invoke cb (Events e)) (fst (lookup tbl (sint (Fd e))))) ready)"
    and cl: "\<forall>i<length ready. cbuf bufs' ! i = None"
    by blast
  show ?thesis
    using it cl by (simp add: invocations_map_filter invoked_unlocked_map_filter)
qed

theorem wait_dispatch_skips_nil_witness:
  "wait_iter ep_example temporary_example defaultOnWaitError bufs_example
     (WaitOk ready_example, callbacks ep_example) =
     (Continue \<lparr>events_len = 8, cbuf = replicate 8 None\<rparr>,
      [SysEpollWait 3 4, MuRLock, MuRUnlock, Invoke 7 1, Invoke 9 4]) \<and>
   invocations (snd (wait_iter ep_example temporary_example defaultOnWaitError bufs_example
     (WaitOk ready_example, callbacks ep_example))) = [(7, 1), (9, 4)]"
proof -
  have h1: "\<forall>e\<in>set ready_example. sint (Fd e) \<noteq> eventFd ep_example"
    by (simp add: ready_example_def ep_example_def)
  have h2: "length ready_example \<le> events_len bufs_example"
    by (simp add: ready_example_def bufs_example_def)
  have h3: "events_len bufs_example = length (cbuf bufs_example)"
    by (simp add: bufs_example_def)
  from wait_dispatch_skips_nil
    [OF h1 h2 h3, of temporary_example defaultOnWaitError "callbacks ep_example"]
  obtain bufs' where
    it: "wait_iter ep_example temporary_example defaultOnWaitError bufs_example
           (WaitOk ready_example, callbacks ep_example) =
           (Continue bufs',
            [SysEpollWait (fd ep_example) (events_len bufs_example), MuRLock, MuRUnlock] @
            List.map_filter
              (\<lambda>e. map_option (\<lambda>cb. Invoke cb (Events e))
                     (fst (lookup (callbacks ep_example) (sint (Fd e)))))
              ready_example)"
    by blast
  have b: "bufs' = \<lparr>events_len = 8, cbuf = replicate 8 None\<rparr>"
    using it by (simp add: wait_iter_def ready_example_def bufs_example_def ep_example_def
        lookup_def maxWaitEventsStop_def Let_def)
  have t: "List.map_filter
              (\<lambda>e. map_option (\<lambda>cb. Invoke cb (Events e))
                     (fst (lookup (callbacks ep_example) (sint (Fd e)))))
              ready_example = [Invoke 7 1, Invoke 9 4]"
    by (simp add: ready_example_def ep_example_def lookup_def)
  have w1: "wait_iter ep_example temporary_example defaultOnWaitError bufs_example
     (WaitOk ready_example, callbacks ep_example) =
     (Continue \<lparr>events_len = 8, cbuf = replicate 8 None\<rparr>,
      [SysEpollWait 3 4, MuRLock, MuRUnlock, Invoke 7 1, Invoke 9 4])"
    using it b t by (simp add: ep_example_def bufs_example_def)
  show ?thesis using w1 by simp
qed

text \<open>
  Claim C6: when a pass with \<open>n\<close> ready entries goes on to a next pass, the loop runs
  the next pass with buffers of twice the size (both newly made) if \<open>n\<close> is the size of
  the buffers and twice that size is at most 32768, and with buffers of the same size
  otherwise; the two buffers have one size, and the next call of \<open>EpollWait\<close> is made
  with that size. Over a whole run of \<open>wait\<close>, whatever the kernel answers, the sizes
  with which \<open>EpollWait\<close> is called start at 1024, never decrease and never exceed
  32768.
\<close>

theorem wait_buffers_grow:
  assumes "events_len bufs = length (cbuf bufs)"
    and "wait_iter ep temporaryErr onError bufs (WaitOk ready, tbl) = (Continue bufs', t)"
  shows "events_len bufs' =
           (if length ready = events_len bufs \<and> 2 * events_len bufs \<le> 32768
            then 2 * events_len bufs else events_len bufs) \<and>
         length (cbuf bufs') = events_len bufs' \<and>
         (length ready = events_len bufs \<and> 2 * events_len bufs \<le> 32768 \<longrightarrow>
            bufs' = \<lparr>events_len = 2 * events_len bufs,
                     cbuf = replicate (2 * events_len bufs) None\<rparr>) \<and>
         wait_loop ep temporaryErr onError bufs ((WaitOk ready, tbl) # rest) =
           (fst (wait_loop ep temporaryErr onError bufs' rest),
            t @ snd (wait_loop ep temporaryErr onError bufs' rest)) \<and>
         (\<exists>u. snd (wait_loop ep temporaryErr onError bufs' rest) =
                SysEpollWait (fd ep) (events_len bufs') # u) \<and>
         wait_sizes (snd (wait_loop ep temporaryErr onError bufs ((WaitOk ready, tbl) # rest))) =
           events_len bufs # wait_sizes (snd (wait_loop ep temporaryErr onError bufs' rest)) \<and>
         sorted (wait_sizes (snd (wait ep temporaryErr onError cl inputs))) \<and>
         (\<exists>ss. wait_sizes (snd (wait ep temporaryErr onError cl inputs)) = 1024 # ss) \<and>
         (\<forall>n\<in>set (wait_sizes (snd (wait ep temporaryErr onError cl inputs))).
            1024 \<le> n \<and> n \<le> 32768) \<and>
         wait_sizes (snd (wait ep temporaryErr onError cl inputs)) =
           map events_len (loop_bufs ep temporaryErr onError wait_bufs_begin inputs) \<and>
         sorted (map events_len (loop_bufs ep temporaryErr onError wait_bufs_begin inputs)) \<and>
         events_len (hd (loop_bufs ep temporaryErr onError wait_bufs_begin inputs)) = 1024 \<and>
         (\<forall>b\<in>set (loop_bufs ep temporaryErr onError wait_bufs_begin inputs).
            1024 \<le> events_len b \<and> events_len b \<le> 32768 \<and> length (cbuf b) = events_len b)"
proof -
  have n: "length ready \<le> length (cbuf bufs)"
    using assms(2) by (auto simp: wait_iter_def Let_def split: if_splits)
  obtain buf1 where r: "resolve (eventFd ep) tbl ready 0 (cbuf bufs) = Some buf1"
    using assms by (cases "resolve (eventFd ep) tbl ready 0 (cbuf bufs)")
      (auto simp: wait_iter_def Let_def split: if_splits)
  obtain buf2 t' where d: "dispatch ready 0 buf1 = (buf2, t')" by force
  from dispatch_length [of ready 0 buf1] d resolve_length [OF r]
  have l: "length buf2 = length (cbuf bufs)" by simp
  have step: "events_len bufs' =
           (if length ready = events_len bufs \<and> 2 * events_len bufs \<le> 32768
            then 2 * events_len bufs else events_len bufs) \<and>
         length (cbuf bufs') = events_len bufs' \<and>
         (length ready = events_len bufs \<and> 2 * events_len bufs \<le> 32768 \<longrightarrow>
            bufs' = \<lparr>events_len = 2 * events_len bufs,
                     cbuf = replicate (2 * events_len bufs) None\<rparr>)"
    using assms n r d l
    by (auto simp: wait_iter_def Let_def maxWaitEventsStop_def mult.commute split: if_splits)
  have lp: "wait_loop ep temporaryErr onError bufs ((WaitOk ready, tbl) # rest) =
           (fst (wait_loop ep temporaryErr onError bufs' rest),
            t @ snd (wait_loop ep temporaryErr onError bufs' rest))"
    using assms(2) by (rule wait_loop_Continue)
  have nx: "\<exists>u. snd (wait_loop ep temporaryErr onError bufs' rest) =
                SysEpollWait (fd ep) (events_len bufs') # u"
    by (rule wait_loop_starts)
  from wait_iter_sizes [of ep temporaryErr onError bufs "(WaitOk ready, tbl)"] assms(2)
  have "wait_sizes t = [events_len bufs]" by simp
  then have sz: "wait_sizes (snd (wait_loop ep temporaryErr onError bufs ((WaitOk ready, tbl) # rest))) =
           events_len bufs # wait_sizes (snd (wait_loop ep temporaryErr onError bufs' rest))"
    unfolding lp by (simp add: wait_sizes_append)
  have i0: "events_len wait_bufs_begin = length (cbuf wait_bufs_begin)"
    by (simp add: wait_bufs_begin_def)
  have u0: "events_len wait_bufs_begin \<le> maxWaitEventsStop"
    by (simp add: wait_bufs_begin_def maxWaitEventsBegin_def maxWaitEventsStop_def)
  from loop_bufs_capacity [OF i0 u0, of ep temporaryErr onError inputs]
  have s: "sorted (map events_len (loop_bufs ep temporaryErr onError wait_bufs_begin inputs))"
    and a: "\<forall>b\<in>set (loop_bufs ep temporaryErr onError wait_bufs_begin inputs).
            1024 \<le> events_len b \<and> events_len b \<le> 32768 \<and> length (cbuf b) = events_len b"
    by (auto simp: wait_bufs_begin_def maxWaitEventsBegin_def maxWaitEventsStop_def)
  have h: "events_len (hd (loop_bufs ep temporaryErr onError wait_bufs_begin inputs)) = 1024"
    by (cases inputs) (simp_all add: wait_bufs_begin_def maxWaitEventsBegin_def)
  have w: "wait_sizes (snd (wait ep temporaryErr onError cl inputs)) =
           map events_len (loop_bufs ep temporaryErr onError wait_bufs_begin inputs)"
    by (simp add: wait_sizes_wait wait_loop_sizes)
  have hs: "\<exists>ss. wait_sizes (snd (wait ep temporaryErr onError cl inputs)) = 1024 # ss"
    unfolding w by (cases inputs) (simp_all add: wait_bufs_begin_def maxWaitEventsBegin_def)
  have as: "\<forall>n\<in>set (wait_sizes (snd (wait ep temporaryErr onError cl inputs))).
            1024 \<le> n \<and> n \<le> 32768"
    unfolding w using a by auto
  have ss: "sorted (wait_sizes (snd (wait ep temporaryErr onError cl inputs)))"
    unfolding w by (rule s)
  show ?thesis using step lp nx sz ss hs as w s h a by blast
qed

theorem wait_buffers_grow_witness:
  "events_len wait_bufs_begin = length (cbuf wait_bufs_begin) \<and>
   length batch_example = 1024 \<and>
   wait_iter ep_example temporary_example defaultOnWaitError wait_bufs_begin
     (WaitOk batch_example, callbacks ep_example) =
     (Continue \<lparr>events_len = 2048, cbuf = replicate 2048 None\<rparr>,
      [SysEpollWait 3 1024, MuRLock, MuRUnlock]) \<and>
   wait ep_example temporary_example defaultOnWaitError None
     [(WaitOk batch_example, callbacks ep_example), (WaitErr 9, None)] =
     (Returned (),
      [SysEpollWait 3 1024, MuRLock, MuRUnlock,
       SysEpollWait 3 2048, CallOnError defaultOnWaitError (Errno 9),
       SysClose 3, CloseWaitDone]) \<and>
   wait_sizes (snd (wait ep_example temporary_example defaultOnWaitError None
     [(WaitOk batch_example, callbacks ep_example), (WaitErr 9, None)])) = [1024, 2048]"
proof -
  let ?tbl = "callbacks ep_example"
  let ?inputs = "[(WaitOk batch_example, ?tbl), (WaitErr 9, None)]"
  have h1: "\<forall>e\<in>set batch_example. sint (Fd e) \<noteq> eventFd ep_example"
    using batch_example_handles by (fastforce simp: ep_example_def)
  have h2: "length batch_example \<le> events_len wait_bufs_begin"
    by (simp add: batch_example_length wait_bufs_begin_def maxWaitEventsBegin_def)
  have h3: "events_len wait_bufs_begin = length (cbuf wait_bufs_begin)"
    by (simp add: wait_bufs_begin_def)
  have mf: "List.map_filter
              (\<lambda>e. map_option (\<lambda>cb. Invoke cb (Events e)) (fst (lookup ?tbl (sint (Fd e)))))
              batch_example = []"
  proof (rule map_filter_all_None)
    fix e assume "e \<in> set batch_example"
    then have "100 \<le> sint (Fd e)" using batch_example_handles by blast
    then show "map_option (\<lambda>cb. Invoke cb (Events e)) (fst (lookup ?tbl (sint (Fd e)))) = None"
      by (simp add: ep_example_def lookup_def)
  qed
  from wait_iter_dispatches [OF h1 h2 h3, of temporary_example defaultOnWaitError ?tbl] mf
  obtain bufs' where
    it: "wait_iter ep_example temporary_example defaultOnWaitError wait_bufs_begin
           (WaitOk batch_example, ?tbl) =
           (Continue bufs', [SysEpollWait (fd ep_example) (events_len wait_bufs_begin),
                             MuRLock, MuRUnlock])"
    by auto
  note g = wait_buffers_grow [OF h3 it, where rest = "[(WaitErr 9, None)]" and cl = None
      and inputs = ?inputs]
  have cond: "length batch_example = events_len wait_bufs_begin \<and>
              2 * events_len wait_bufs_begin \<le> 32768"
    by (simp add: batch_example_length wait_bufs_begin_def maxWaitEventsBegin_def)
  from g cond have b: "bufs' = \<lparr>events_len = 2048, cbuf = replicate 2048 None\<rparr>"
    by (simp add: wait_bufs_begin_def maxWaitEventsBegin_def)
  from g have lp: "wait_loop ep_example temporary_example defaultOnWaitError wait_bufs_begin ?inputs =
      (fst (wait_loop ep_example temporary_example defaultOnWaitError bufs' [(WaitErr 9, None)]),
       [SysEpollWait (fd ep_example) (events_len wait_bufs_begin), MuRLock, MuRUnlock] @
       snd (wait_loop ep_example temporary_example defaultOnWaitError bufs' [(WaitErr 9, None)]))"
    by blast
  have nx: "wait_loop ep_example temporary_example defaultOnWaitError
              \<lparr>events_len = 2048, cbuf = replicate 2048 None\<rparr> [(WaitErr 9, None)] =
            (Returned (), [SysEpollWait 3 2048, CallOnError defaultOnWaitError (Errno 9)])"
    by (simp add: wait_iter_def temporary_example_def ep_example_def)
  have wl: "wait_loop ep_example temporary_example defaultOnWaitError wait_bufs_begin ?inputs =
      (Returned (), [SysEpollWait 3 1024, MuRLock, MuRUnlock,
                     SysEpollWait 3 2048, CallOnError defaultOnWaitError (Errno 9)])"
    unfolding lp b nx by (simp add: ep_example_def wait_bufs_begin_def maxWaitEventsBegin_def)
  have w: "wait ep_example temporary_example defaultOnWaitError None ?inputs =
     (Returned (),
      [SysEpollWait 3 1024, MuRLock, MuRUnlock,
       SysEpollWait 3 2048, CallOnError defaultOnWaitError (Errno 9),
       SysClose 3, CloseWaitDone])"
    unfolding wait_unfold wl by (simp add: wait_deferred_def ep_example_def)
  have it': "wait_iter ep_example temporary_example defaultOnWaitError wait_bufs_begin
     (WaitOk batch_example, ?tbl) =
     (Continue \<lparr>events_len = 2048, cbuf = replicate 2048 None\<rparr>,
      [SysEpollWait 3 1024, MuRLock, MuRUnlock])"
    using it b by (simp add: ep_example_def wait_bufs_begin_def maxWaitEventsBegin_def)
  show ?thesis
    using h3 batch_example_length it' w by simp
qed

text \<open>
  Claim C7: when \<open>EpollWait\<close> fails with an error that \<open>temporaryErr\<close> accepts, the
  pass has no effect but the call itself, keeps the buffers, and the loop goes on with
  the next call of \<open>EpollWait\<close>. With any other error the loop calls the error handler
  with that error and returns. The loop goes on after a pass that continues, and it is
  left at the first pass that returns or panics, wherever that pass stands. Whenever the
  loop is left, \<open>wait\<close> ends as the loop has ended, and its effects are those of the
  loop followed by the close of the polling handle, the call of the error handler if that
  close has failed, and the close of the channel; it closes no other handle, and it
  closes the channel once. This holds after a wake handle and after a panic as after a
  fatal error. While the loop is blocked, \<open>wait\<close> has closed nothing. \<open>wait\<close> has no
  result in which an error could be returned.
\<close>

theorem wait_error_paths:
  "(temporaryErr (Errno err) \<longrightarrow>
      wait_iter ep temporaryErr onError bufs (WaitErr err, tbl) =
        (Continue bufs, [SysEpollWait (fd ep) (events_len bufs)]) \<and>
      wait_loop ep temporaryErr onError bufs ((WaitErr err, tbl) # rest) =
        (case wait_loop ep temporaryErr onError bufs rest of
           (r, t) \<Rightarrow> (r, SysEpollWait (fd ep) (events_len bufs) # t)) \<and>
      (\<exists>t. snd (wait_loop ep temporaryErr onError bufs rest) =
             SysEpollWait (fd ep) (events_len bufs) # t)) \<and>
   (\<not> temporaryErr (Errno err) \<longrightarrow>
      wait_loop ep temporaryErr onError bufs ((WaitErr err, tbl) # rest) =
        (Returned (), [SysEpollWait (fd ep) (events_len bufs), CallOnError onError (Errno err)]) \<and>
      wait ep temporaryErr onError cl ((WaitErr err, tbl) # rest) =
        (Returned (),
         [SysEpollWait (fd ep) maxWaitEventsBegin, CallOnError onError (Errno err), SysClose (fd ep)]
         @ (case cl of None \<Rightarrow> [] | Some ce \<Rightarrow> [CallOnError onError (Errno ce)])
         @ [CloseWaitDone])) \<and>
   (wait_iter ep temporaryErr onError bufs inp = (Continue bufs', t) \<longrightarrow>
      wait_loop ep temporaryErr onError bufs (inp # rest) =
        (fst (wait_loop ep temporaryErr onError bufs' rest),
         t @ snd (wait_loop ep temporaryErr onError bufs' rest))) \<and>
   (fst (wait_iter ep temporaryErr onError bufs inp) = Return \<longrightarrow>
      wait_loop ep temporaryErr onError bufs (inp # rest) =
        (Returned (), snd (wait_iter ep temporaryErr onError bufs inp))) \<and>
   (fst (wait_iter ep temporaryErr onError bufs inp) = Panic \<longrightarrow>
      wait_loop ep temporaryErr onError bufs (inp # rest) =
        (Panicked, snd (wait_iter ep temporaryErr onError bufs inp))) \<and>
   (fst (wait_loop ep temporaryErr onError wait_bufs_begin inputs) \<noteq> Blocked \<longrightarrow>
      wait ep temporaryErr onError cl inputs =
        (fst (wait_loop ep temporaryErr onError wait_bufs_begin inputs),
         snd (wait_loop ep temporaryErr onError wait_bufs_begin inputs)
         @ [SysClose (fd ep)]
         @ (case cl of None \<Rightarrow> [] | Some ce \<Rightarrow> [CallOnError onError (Errno ce)])
         @ [CloseWaitDone]) \<and>
      closes (snd (wait ep temporaryErr onError cl inputs)) = [fd ep] \<and>
      count_list (snd (wait ep temporaryErr onError cl inputs)) CloseWaitDone = 1) \<and>
   (fst (wait_loop ep temporaryErr onError wait_bufs_begin inputs) = Blocked \<longrightarrow>
      wait ep temporaryErr onError cl inputs =
        wait_loop ep temporaryErr onError wait_bufs_begin inputs \<and>
      closes (snd (wait ep temporaryErr onError cl inputs)) = [] \<and>
      count_list (snd (wait ep temporaryErr onError cl inputs)) CloseWaitDone = 0) \<and>
   (e \<in> set ready \<and> sint (Fd e) = eventFd ep \<and> length ready \<le> maxWaitEventsBegin \<longrightarrow>
      wait ep temporaryErr onError cl ((WaitOk ready, tbl) # rest) =
        (Returned (),
         [SysEpollWait (fd ep) maxWaitEventsBegin, MuRLock, MuRUnlock, SysClose (fd ep)]
         @ (case cl of None \<Rightarrow> [] | Some ce \<Rightarrow> [CallOnError onError (Errno ce)])
         @ [CloseWaitDone])) \<and>
   (length ready > maxWaitEventsBegin \<longrightarrow>
      wait ep temporaryErr onError cl ((WaitOk ready, tbl) # rest) =
        (Panicked,
         [SysEpollWait (fd ep) maxWaitEventsBegin, SysClose (fd ep)]
         @ (case cl of None \<Rightarrow> [] | Some ce \<Rightarrow> [CallOnError onError (Errno ce)])
         @ [CloseWaitDone]))"
proof (intro conjI impI)
  assume tmp: "temporaryErr (Errno err)"
  then show it: "wait_iter ep temporaryErr onError bufs (WaitErr err, tbl) =
        (Continue bufs, [SysEpollWait (fd ep) (events_len bufs)])"
    by (simp add: wait_iter_def)
  show "wait_loop ep temporaryErr onError bufs ((WaitErr err, tbl) # rest) =
        (case wait_loop ep temporaryErr onError bufs rest of
           (r, t) \<Rightarrow> (r, SysEpollWait (fd ep) (events_len bufs) # t))"
    using it by (simp split: prod.splits)
  show "\<exists>t. snd (wait_loop ep temporaryErr onError bufs rest) =
             SysEpollWait (fd ep) (events_len bufs) # t"
    by (rule wait_loop_starts)
next
  assume fatal: "\<not> temporaryErr (Errno err)"
  then show "wait_loop ep temporaryErr onError bufs ((WaitErr err, tbl) # rest) =
        (Returned (), [SysEpollWait (fd ep) (events_len bufs), CallOnError onError (Errno err)])"
    by (simp add: wait_iter_def)
  from fatal show "wait ep temporaryErr onError cl ((WaitErr err, tbl) # rest) =
        (Returned (),
         [SysEpollWait (fd ep) maxWaitEventsBegin, CallOnError onError (Errno err), SysClose (fd ep)]
         @ (case cl of None \<Rightarrow> [] | Some ce \<Rightarrow> [CallOnError onError (Errno ce)])
         @ [CloseWaitDone])"
    by (simp add: wait_def wait_iter_def wait_deferred_def wait_bufs_begin_def)
next
  assume "wait_iter ep temporaryErr onError bufs inp = (Continue bufs', t)"
  then show "wait_loop ep temporaryErr onError bufs (inp # rest) =
        (fst (wait_loop ep temporaryErr onError bufs' rest),
         t @ snd (wait_loop ep temporaryErr onError bufs' rest))"
    by (rule wait_loop_Continue)
next
  assume "fst (wait_iter ep temporaryErr onError bufs inp) = Return"
  then show "wait_loop ep temporaryErr onError bufs (inp # rest) =
        (Returned (), snd (wait_iter ep temporaryErr onError bufs inp))"
    by (rule wait_loop_Return)
next
  assume "fst (wait_iter ep temporaryErr onError bufs inp) = Panic"
  then show "wait_loop ep temporaryErr onError bufs (inp # rest) =
        (Panicked, snd (wait_iter ep temporaryErr onError bufs inp))"
    by (rule wait_loop_Panic)
next
  let ?t0 = "snd (wait_loop ep temporaryErr onError wait_bufs_begin inputs)"
  have c0: "closes ?t0 = []"
  proof (rule closes_none)
    fix a h
    assume "a \<in> set ?t0"
    then show "a \<noteq> SysClose h" using wait_loop_effects by blast
  qed
  have n0: "CloseWaitDone \<notin> set ?t0" using wait_loop_effects by blast
  {
    assume nb: "fst (wait_loop ep temporaryErr onError wait_bufs_begin inputs) \<noteq> Blocked"
    then have eq: "wait ep temporaryErr onError cl inputs =
        (fst (wait_loop ep temporaryErr onError wait_bufs_begin inputs),
         ?t0 @ wait_deferred ep onError cl)"
      by (simp add: wait_unfold)
    then show "wait ep temporaryErr onError cl inputs =
        (fst (wait_loop ep temporaryErr onError wait_bufs_begin inputs),
         ?t0 @ [SysClose (fd ep)]
         @ (case cl of None \<Rightarrow> [] | Some ce \<Rightarrow> [CallOnError onError (Errno ce)])
         @ [CloseWaitDone])"
      by (simp add: wait_deferred_def)
    show "closes (snd (wait ep temporaryErr onError cl inputs)) = [fd ep]"
      by (simp add: eq closes_append c0 wait_deferred_closes)
    show "count_list (snd (wait ep temporaryErr onError cl inputs)) CloseWaitDone = 1"
      using n0 by (simp add: eq wait_deferred_count)
  }
  {
    assume b: "fst (wait_loop ep temporaryErr onError wait_bufs_begin inputs) = Blocked"
    then show eq: "wait ep temporaryErr onError cl inputs =
        wait_loop ep temporaryErr onError wait_bufs_begin inputs"
      by (simp add: wait_unfold)
    show "closes (snd (wait ep temporaryErr onError cl inputs)) = []"
      by (simp add: eq c0)
    show "count_list (snd (wait ep temporaryErr onError cl inputs)) CloseWaitDone = 0"
      using n0 by (simp add: eq)
  }
next
  assume a: "e \<in> set ready \<and> sint (Fd e) = eventFd ep \<and> length ready \<le> maxWaitEventsBegin"
  then have "resolve (eventFd ep) tbl ready 0 (cbuf wait_bufs_begin) = None"
    by (intro resolve_wake) blast
  then have "wait_loop ep temporaryErr onError wait_bufs_begin ((WaitOk ready, tbl) # rest) =
      (Returned (), [SysEpollWait (fd ep) maxWaitEventsBegin, MuRLock, MuRUnlock])"
    using a by (simp add: wait_iter_def Let_def wait_bufs_begin_def)
  then show "wait ep temporaryErr onError cl ((WaitOk ready, tbl) # rest) =
        (Returned (),
         [SysEpollWait (fd ep) maxWaitEventsBegin, MuRLock, MuRUnlock, SysClose (fd ep)]
         @ (case cl of None \<Rightarrow> [] | Some ce \<Rightarrow> [CallOnError onError (Errno ce)])
         @ [CloseWaitDone])"
    by (simp add: wait_def wait_deferred_def)
next
  assume a: "length ready > maxWaitEventsBegin"
  then have "wait_loop ep temporaryErr onError wait_bufs_begin ((WaitOk ready, tbl) # rest) =
      (Panicked, [SysEpollWait (fd ep) maxWaitEventsBegin])"
    by (simp add: wait_iter_def Let_def wait_bufs_begin_def)
  then show "wait ep temporaryErr onError cl ((WaitOk ready, tbl) # rest) =
        (Panicked,
         [SysEpollWait (fd ep) maxWaitEventsBegin, SysClose (fd ep)]
         @ (case cl of None \<Rightarrow> [] | Some ce \<Rightarrow> [CallOnError onError (Errno ce)])
         @ [CloseWaitDone])"
    by (simp add: wait_def wait_deferred_def)
qed

theorem wait_error_paths_witness:
  "temporary_example (Errno 4) \<and> \<not> temporary_example (Errno 9) \<and>
   wait ep_example temporary_example (UserHandler 1) (Some 5)
     [(WaitErr 9, callbacks ep_example)] =
     (Returned (),
      [SysEpollWait 3 1024, CallOnError (UserHandler 1) (Errno 9),
       SysClose 3, CallOnError (UserHandler 1) (Errno 5), CloseWaitDone]) \<and>
   wait ep_example temporary_example (UserHandler 1) (Some 5)
     [(WaitErr 4, callbacks ep_example), (WaitOk ready_example, callbacks ep_example),
      (WaitErr 9, callbacks ep_example)] =
     (Returned (),
      [SysEpollWait 3 1024,
       SysEpollWait 3 1024, MuRLock, MuRUnlock, Invoke 7 1, Invoke 9 4,
       SysEpollWait 3 1024, CallOnError (UserHandler 1) (Errno 9),
       SysClose 3, CallOnError (UserHandler 1) (Errno 5), CloseWaitDone]) \<and>
   wait ep_example temporary_example (UserHandler 1) None
     [(WaitOk ready_example, callbacks ep_example),
      (WaitOk [\<lparr>Events = 1, Fd = 5\<rparr>, \<lparr>Events = 1, Fd = 4\<rparr>], callbacks ep_example)] =
     (Returned (),
      [SysEpollWait 3 1024, MuRLock, MuRUnlock, Invoke 7 1, Invoke 9 4,
       SysEpollWait 3 1024, MuRLock, MuRUnlock,
       SysClose 3, CloseWaitDone]) \<and>
   wait ep_example temporary_example (UserHandler 1) None
     [(WaitOk [\<lparr>Events = 1, Fd = 5\<rparr>, \<lparr>Events = 1, Fd = 4\<rparr>], callbacks ep_example)] =
     (Returned (),
      [SysEpollWait 3 1024, MuRLock, MuRUnlock, SysClose 3, CloseWaitDone]) \<and>
   wait ep_example temporary_example (UserHandler 1) None
     [(WaitErr 4, callbacks ep_example), (WaitOk ready_example, callbacks ep_example)] =
     (Blocked,
      [SysEpollWait 3 1024,
       SysEpollWait 3 1024, MuRLock, MuRUnlock, Invoke 7 1, Invoke 9 4,
       SysEpollWait 3 1024])"
proof -
  let ?tbl = "callbacks ep_example"
  let ?h = "UserHandler 1"
  let ?wake = "[\<lparr>Events = 1, Fd = 5\<rparr>, \<lparr>Events = 1, Fd = 4\<rparr>]"
  let ?in1 = "[(WaitErr 4, ?tbl), (WaitOk ready_example, ?tbl), (WaitErr 9, ?tbl)]"
  let ?in2 = "[(WaitOk ready_example, ?tbl), (WaitOk ?wake, ?tbl)]"
  let ?in3 = "[(WaitErr 4, ?tbl), (WaitOk ready_example, ?tbl)]"
  have t4: "temporary_example (Errno 4)" and t9: "\<not> temporary_example (Errno 9)"
    by (simp_all add: temporary_example_def)
  have l1: "wait_loop ep_example temporary_example ?h wait_bufs_begin ?in1 =
      (Returned (),
       [SysEpollWait 3 1024,
        SysEpollWait 3 1024, MuRLock, MuRUnlock, Invoke 7 1, Invoke 9 4,
        SysEpollWait 3 1024, CallOnError ?h (Errno 9)])"
    by (simp add: wait_iter_def ready_example_def wait_bufs_begin_def ep_example_def
          lookup_def temporary_example_def maxWaitEventsBegin_def maxWaitEventsStop_def Let_def)
  have l2: "wait_loop ep_example temporary_example ?h wait_bufs_begin ?in2 =
      (Returned (),
       [SysEpollWait 3 1024, MuRLock, MuRUnlock, Invoke 7 1, Invoke 9 4,
        SysEpollWait 3 1024, MuRLock, MuRUnlock])"
    by (simp add: wait_iter_def ready_example_def wait_bufs_begin_def ep_example_def
          lookup_def temporary_example_def maxWaitEventsBegin_def maxWaitEventsStop_def Let_def)
  have l3: "wait_loop ep_example temporary_example ?h wait_bufs_begin ?in3 =
      (Blocked,
       [SysEpollWait 3 1024,
        SysEpollWait 3 1024, MuRLock, MuRUnlock, Invoke 7 1, Invoke 9 4,
        SysEpollWait 3 1024])"
    by (simp add: wait_iter_def ready_example_def wait_bufs_begin_def ep_example_def
          lookup_def temporary_example_def maxWaitEventsBegin_def maxWaitEventsStop_def Let_def)
  note a1 = wait_error_paths [where temporaryErr = temporary_example and err = 9
      and ep = ep_example and onError = ?h and bufs = wait_bufs_begin and tbl = ?tbl
      and rest = "[]" and cl = "Some 5" and inputs = ?in1]
  note a2 = wait_error_paths [where temporaryErr = temporary_example and ep = ep_example
      and onError = ?h and cl = None and inputs = ?in2
      and e = "\<lparr>Events = 1, Fd = 4\<rparr>" and ready = ?wake and tbl = ?tbl and rest = "[]"]
  note a3 = wait_error_paths [where temporaryErr = temporary_example and ep = ep_example
      and onError = ?h and cl = None and inputs = ?in3]
  from a1 t9 have w0: "wait ep_example temporary_example ?h (Some 5) [(WaitErr 9, ?tbl)] =
        (Returned (),
         [SysEpollWait (fd ep_example) maxWaitEventsBegin, CallOnError ?h (Errno 9),
          SysClose (fd ep_example)]
         @ (case Some 5 of None \<Rightarrow> [] | Some ce \<Rightarrow> [CallOnError ?h (Errno ce)])
         @ [CloseWaitDone])"
    by blast
  have nb1: "fst (wait_loop ep_example temporary_example ?h wait_bufs_begin ?in1) \<noteq> Blocked"
    unfolding l1 by simp
  from a1 nb1 have w1: "wait ep_example temporary_example ?h (Some 5) ?in1 =
        (fst (wait_loop ep_example temporary_example ?h wait_bufs_begin ?in1),
         snd (wait_loop ep_example temporary_example ?h wait_bufs_begin ?in1)
         @ [SysClose (fd ep_example)]
         @ (case Some 5 of None \<Rightarrow> [] | Some ce \<Rightarrow> [CallOnError ?h (Errno ce)])
         @ [CloseWaitDone])"
    by blast
  have nb2: "fst (wait_loop ep_example temporary_example ?h wait_bufs_begin ?in2) \<noteq> Blocked"
    unfolding l2 by simp
  from a2 nb2 have w2: "wait ep_example temporary_example ?h None ?in2 =
        (fst (wait_loop ep_example temporary_example ?h wait_bufs_begin ?in2),
         snd (wait_loop ep_example temporary_example ?h wait_bufs_begin ?in2)
         @ [SysClose (fd ep_example)]
         @ (case None of None \<Rightarrow> [] | Some ce \<Rightarrow> [CallOnError ?h (Errno ce)])
         @ [CloseWaitDone])"
    by blast
  have wk: "\<lparr>Events = 1, Fd = 4\<rparr> \<in> set ?wake \<and>
            sint (Fd \<lparr>Events = 1, Fd = 4 :: 32 word\<rparr>) = eventFd ep_example \<and>
            length ?wake \<le> maxWaitEventsBegin"
    by (simp add: ep_example_def maxWaitEventsBegin_def)
  from a2 wk have w4: "wait ep_example temporary_example ?h None [(WaitOk ?wake, ?tbl)] =
        (Returned (),
         [SysEpollWait (fd ep_example) maxWaitEventsBegin, MuRLock, MuRUnlock,
          SysClose (fd ep_example)]
         @ (case None of None \<Rightarrow> [] | Some ce \<Rightarrow> [CallOnError ?h (Errno ce)])
         @ [CloseWaitDone])"
    by blast
  have b3: "fst (wait_loop ep_example temporary_example ?h wait_bufs_begin ?in3) = Blocked"
    unfolding l3 by simp
  from a3 b3 have w3: "wait ep_example temporary_example ?h None ?in3 =
        wait_loop ep_example temporary_example ?h wait_bufs_begin ?in3"
    by blast
  show ?thesis
    using t4 t9 w0 w1 [unfolded l1] w2 [unfolded l2] w3 [unfolded l3] w4
    by (simp add: ep_example_def maxWaitEventsBegin_def)
qed

end
